theory Spec2Isabelle
  imports Complex_Main "HOL-Library.AList" "HOL-Library.Multiset"
begin

section \<open>Values\<close>

text \<open>
  The values that \<^verbatim>\<open>JSON.parse\<close> produces, and that travel in request objects and in
  per-chunk results (\<^verbatim>\<open>Record<string, any>\<close>). An object is the list of its own
  properties, looked up with \<^const>\<open>map_of\<close>. A \<^typ>\<open>char\<close> stands for one code unit of a
  JavaScript string.

  A number is a finite value, the negative zero, \<^verbatim>\<open>NaN\<close> or an infinity; \<open>Finite 0\<close> is
  the positive zero. No operation of the program computes with numbers: it compares them
  with \<^verbatim>\<open>Object.is\<close>, which tells the two zeros apart and takes \<^verbatim>\<open>NaN\<close> for itself, and
  it tests their truthiness.
\<close>

datatype number = Finite rat | NegativeZero | NaN | PositiveInfinity | NegativeInfinity

datatype json =
    JNull
  | JBool bool
  | JNum number
  | JStr string
  | JArr "json list"
  | JObj "(string \<times> json) list"

type_synonym jsobject = "(string \<times> json) list"

text \<open>What the program can throw: \<^verbatim>\<open>new Error(msg)\<close> and the runtime's TypeError.\<close>

datatype error = Error string | TypeError

section \<open>Chunking (chunking.ts)\<close>

record Chunk =
  id_chunk :: nat
  text_chunk :: string
  startChar :: nat
  endChar :: nat
  tokens :: "string list"

text \<open>
  \<^verbatim>\<open>text.indexOf(tok, searchIdx)\<close>: the first position at or after \<open>searchIdx\<close> where
  \<open>tok\<close> occurs, \<open>None\<close> for \<^verbatim>\<open>-1\<close>. The empty token is found at
  \<open>min searchIdx (length text)\<close>.
\<close>

definition indexOf :: "string \<Rightarrow> string \<Rightarrow> nat \<Rightarrow> nat option" where
  "indexOf doc tok searchIdx =
     (if tok = [] then Some (min searchIdx (length doc))
      else List.find (\<lambda>k. take (length tok) (drop k doc) = tok) [searchIdx ..< length doc])"

text \<open>The \<^verbatim>\<open>for (const tok of tokens)\<close> loop of buildChunks, lines 33 to 45.\<close>

fun tokenCharPositions :: "string \<Rightarrow> string list \<Rightarrow> nat \<Rightarrow> (nat \<times> nat) list" where
  "tokenCharPositions doc [] searchIdx = []"
| "tokenCharPositions doc (tok # toks) searchIdx =
     (case indexOf doc tok searchIdx of
        None \<Rightarrow>
          (searchIdx, min (searchIdx + length tok) (length doc))
            # tokenCharPositions doc toks (searchIdx + length tok)
      | Some found \<Rightarrow>
          (found, found + length tok)
            # tokenCharPositions doc toks (found + length tok))"

text \<open>
  \<^verbatim>\<open>s.slice(a, b)\<close> for indices that are not negative, on strings and on arrays.
\<close>

definition slice :: "'a list \<Rightarrow> nat \<Rightarrow> nat \<Rightarrow> 'a list" where
  "slice xs a b = take (b - a) (drop a xs)"

text \<open>
  One turn of the \<^verbatim>\<open>while (i < tokens.length)\<close> loop, lines 51 to 62: the chunk that
  starts at token \<open>i\<close>. \<open>chunk_tokens\<close> is an integer of either sign. When
  \<open>endToken - 1\<close> is negative, \<^verbatim>\<open>tokenCharPositions[endToken - 1]\<close> is \<^verbatim>\<open>undefined\<close>
  and reading its \<^verbatim>\<open>end\<close> throws a TypeError.
\<close>

definition chunk_at ::
  "string \<Rightarrow> string list \<Rightarrow> (nat \<times> nat) list \<Rightarrow> int \<Rightarrow> nat \<Rightarrow> nat \<Rightarrow> error + Chunk" where
  "chunk_at doc toks pos chunk_tokens i chunk_id =
     (let startToken = i;
          endToken = min (int i + chunk_tokens) (int (length toks))
      in if endToken - 1 < 0 then Inl TypeError
         else
           (let chunkTokensSlice = slice toks startToken (nat endToken);
                start_char = fst (pos ! startToken);
                end_char = snd (pos ! nat (endToken - 1))
            in Inr \<lparr> id_chunk = chunk_id, text_chunk = slice doc start_char end_char,
                     startChar = start_char, endChar = end_char,
                     tokens = chunkTokensSlice \<rparr>))"

text \<open>The loop, lines 48 to 67, with \<^verbatim>\<open>step = Math.max(1, chunkTokens - overlapTokens)\<close>.\<close>

function chunk_loop ::
  "string \<Rightarrow> string list \<Rightarrow> (nat \<times> nat) list \<Rightarrow> int \<Rightarrow> int \<Rightarrow> nat \<Rightarrow> nat \<Rightarrow> Chunk list
     \<Rightarrow> error + Chunk list" where
  "chunk_loop doc toks pos chunk_tokens overlap_tokens i chunk_id chunks =
     (if i < length toks then
        (case chunk_at doc toks pos chunk_tokens i chunk_id of
           Inl e \<Rightarrow> Inl e
         | Inr chunk \<Rightarrow>
             (let step = nat (max 1 (chunk_tokens - overlap_tokens))
              in chunk_loop doc toks pos chunk_tokens overlap_tokens (i + step) (chunk_id + 1)
                   (chunks @ [chunk])))
      else Inr chunks)"
  by pat_completeness auto
termination
  by (relation "measure (\<lambda>(doc, toks, pos, ct, ovl, i, cid, cs). length toks - i)") auto

declare chunk_loop.simps [simp del]

definition buildChunks ::
  "string \<Rightarrow> int \<Rightarrow> int \<Rightarrow> (string \<Rightarrow> string list) \<Rightarrow> error + Chunk list" where
  "buildChunks doc chunk_tokens overlap_tokens tokenize =
     (let toks = tokenize doc
      in if length toks = 0 then Inr []
         else chunk_loop doc toks (tokenCharPositions doc toks 0) chunk_tokens overlap_tokens 0 0 [])"

text \<open>
  A tokenizer a caller can pass: the words between blanks, empty pieces dropped
  (\<^verbatim>\<open>t => t.split(" ").filter(Boolean)\<close>).
\<close>

fun split_words :: "string \<Rightarrow> string \<Rightarrow> string list" where
  "split_words w [] = (if w = [] then [] else [w])"
| "split_words w (c # cs) =
     (if c = CHR '' '' then (if w = [] then split_words [] cs else w # split_words [] cs)
      else split_words (w @ [c]) cs)"

definition words_tokenizer :: "string \<Rightarrow> string list" where
  "words_tokenizer doc = split_words [] doc"

section \<open>Schemas and results (index.ts)\<close>

datatype SchemaEnumValue = EStr string | ENum number | EBool bool | ENull

text \<open>
  The five shapes of \<^verbatim>\<open>SchemaNode\<close>; each carries the optional \<^verbatim>\<open>description\<close>
  and \<^verbatim>\<open>enum\<close> of \<^verbatim>\<open>BaseSchemaNode\<close>.
\<close>

datatype SchemaNode =
    StringSchemaNode (description: "string option") (enum_values: "SchemaEnumValue list option")
  | NumberSchemaNode (description: "string option") (enum_values: "SchemaEnumValue list option")
  | BooleanSchemaNode (description: "string option") (enum_values: "SchemaEnumValue list option")
  | ArraySchemaNode (description: "string option") (enum_values: "SchemaEnumValue list option")
      (items: SchemaNode)
  | ObjectSchemaNode (description: "string option") (enum_values: "SchemaEnumValue list option")
      (node_properties: "(string \<times> SchemaNode) list") (node_required: "string list option")

fun node_type :: "SchemaNode \<Rightarrow> string" where
  "node_type (StringSchemaNode _ _) = ''string''"
| "node_type (NumberSchemaNode _ _) = ''number''"
| "node_type (BooleanSchemaNode _ _) = ''boolean''"
| "node_type (ArraySchemaNode _ _ _) = ''array''"
| "node_type (ObjectSchemaNode _ _ _ _) = ''object''"

text \<open>
  \<^verbatim>\<open>SchemaField\<close>, the root schema, is the object shape; \<open>properties\<close> lists its
  fields in the order of \<^verbatim>\<open>Object.entries\<close>.
\<close>

record SchemaField =
  properties :: "(string \<times> SchemaNode) list"
  required :: "string list option"
  description_root :: "string option"
  enum_root :: "SchemaEnumValue list option"

record ChunkResult =
  chunkId :: nat
  parsed :: jsobject
  raw :: string

record Metadata =
  chunkCount :: nat
  perFieldProvenance :: "(string \<times> nat list) list"
  rawChunkResults :: "ChunkResult list"

record ExtractResult =
  json :: jsobject
  metadata :: Metadata

text \<open>
  \<^verbatim>\<open>ExtractOptions\<close>. Every field is optional at run time; \<open>schema\<close> is the one the
  program checks for.
\<close>

record ExtractOptions =
  schema :: "SchemaField option"
  chunkTokens :: "int option"
  overlapTokens :: "int option"
  concurrency :: "int option"
  tokenizer :: "(string \<Rightarrow> string list) option"
  llmCallOptions :: "jsobject option"

text \<open>
  What awaiting \<^verbatim>\<open>openai.chat.completions.create(args)\<close> gives: the promise rejects (or
  the call throws), or it resolves and \<^verbatim>\<open>resp?.choices?.[0]?.message?.content\<close> is a
  string or is missing. The client is called once per chunk and once for the reduction,
  and nothing makes it answer the same request twice alike: \<open>openai params n request\<close>
  is what the call number \<open>n\<close> of the run, counted from \<open>0\<close>, settles to for its request.
\<close>

datatype completion = Rejected | Resolved "string option"

record ClientPreferredParams =
  model :: string
  other_params :: jsobject

record IntextParams =
  openai :: "nat \<Rightarrow> jsobject \<Rightarrow> completion"
  clientParams :: ClientPreferredParams
  defaultRequestParams :: "jsobject option"

text \<open>
  What the program takes from outside this repository or what stays opaque to it:
  \<^verbatim>\<open>JSON.parse\<close> (\<open>None\<close> when it throws), the default tokenizer of the package
  token-estimator, and the texts of the two prompts, which only travel into the requests.
\<close>

record Host =
  JSON_parse :: "string \<Rightarrow> json option"
  defaultTokenizer :: "string \<Rightarrow> string list"
  buildPromptForChunk :: "Chunk \<Rightarrow> SchemaField \<Rightarrow> string"
  buildFinalReductionPrompt :: "ChunkResult list \<Rightarrow> SchemaField \<Rightarrow> string"

section \<open>Request objects\<close>

text \<open>JavaScript truthiness, for \<^verbatim>\<open>!requestBody.response_format\<close>.\<close>

fun truthy :: "json \<Rightarrow> bool" where
  "truthy JNull = False"
| "truthy (JBool b) = b"
| "truthy (JNum n) = (n \<noteq> Finite 0 \<and> n \<noteq> NegativeZero \<and> n \<noteq> NaN)"
| "truthy (JStr s) = (s \<noteq> [])"
| "truthy (JArr _) = True"
| "truthy (JObj _) = True"

text \<open>
  \<^verbatim>\<open>{ ...a, ...b }\<close> is \<^term>\<open>AList.merge a b\<close>: a property has the value it has in
  \<open>b\<close>, else the one it has in \<open>a\<close>. \<^verbatim>\<open>{ ...a, k: v }\<close> is \<^term>\<open>AList.update k v a\<close>.
  The order of the properties of a request is not followed: requests are only read.
  \<^verbatim>\<open>clientParams\<close> always has its \<^verbatim>\<open>model\<close>.
\<close>

definition clientParams_object :: "ClientPreferredParams \<Rightarrow> jsobject" where
  "clientParams_object cp = AList.update ''model'' (JStr (model cp)) (other_params cp)"

definition packageDefaults :: "IntextParams \<Rightarrow> jsobject" where
  "packageDefaults params =
     AList.merge [(''stream'', JBool False)]
       (case defaultRequestParams params of None \<Rightarrow> [] | Some d \<Rightarrow> d)"

text \<open>Lines 278 to 290 for a chunk, and the same lines 348 to 359 for the reduction.\<close>

definition requestBody :: "IntextParams \<Rightarrow> jsobject \<Rightarrow> string \<Rightarrow> jsobject" where
  "requestBody params callOptions prompt =
     (let merged =
            AList.merge (AList.merge (packageDefaults params)
              (clientParams_object (clientParams params))) callOptions;
          body =
            AList.update ''messages''
              (JArr [JObj [(''role'', JStr ''user''), (''content'', JStr prompt)]])
              (AList.update ''model'' (JStr (model (clientParams params))) merged)
      in case map_of body ''response_format'' of
           None \<Rightarrow> AList.update ''response_format'' (JObj [(''type'', JStr ''json_object'')]) body
         | Some v \<Rightarrow>
             if truthy v then body
             else AList.update ''response_format'' (JObj [(''type'', JStr ''json_object'')]) body)"

section \<open>Normalizing one response\<close>

text \<open>
  The decimal strings that are array indices: \<^verbatim>\<open>"0"\<close>, or digits that do not start
  with \<^verbatim>\<open>0\<close>.
\<close>

definition digit_value :: "char \<Rightarrow> nat option" where
  "digit_value c =
     (let n = (of_char c :: nat) in if 48 \<le> n \<and> n \<le> 57 then Some (n - 48) else None)"

definition array_index :: "string \<Rightarrow> nat option" where
  "array_index k =
     (if k = [] \<or> (\<exists>c \<in> set k. digit_value c = None) \<or> (hd k = CHR ''0'' \<and> length k > 1)
      then None
      else Some (foldl (\<lambda>a c. 10 * a + the (digit_value c)) 0 k))"

text \<open>
  \<^verbatim>\<open>Object.prototype.hasOwnProperty.call(parsed, fieldId)\<close>. It throws a TypeError on
  \<^verbatim>\<open>null\<close>; an array and a string own their indices and \<^verbatim>\<open>length\<close>; a number and a
  boolean own nothing.
\<close>

fun hasOwnProperty :: "json \<Rightarrow> string \<Rightarrow> error + bool" where
  "hasOwnProperty JNull k = Inl TypeError"
| "hasOwnProperty (JBool _) k = Inr False"
| "hasOwnProperty (JNum _) k = Inr False"
| "hasOwnProperty (JStr s) k =
     Inr (k = ''length'' \<or> (case array_index k of None \<Rightarrow> False | Some i \<Rightarrow> i < length s))"
| "hasOwnProperty (JArr xs) k =
     Inr (k = ''length'' \<or> (case array_index k of None \<Rightarrow> False | Some i \<Rightarrow> i < length xs))"
| "hasOwnProperty (JObj kvs) k = Inr (map_of kvs k \<noteq> None)"

text \<open>\<^verbatim>\<open>parsed[fieldId]\<close>, read only when the property is an own one.\<close>

fun get_property :: "json \<Rightarrow> string \<Rightarrow> json" where
  "get_property (JObj kvs) k = (case map_of kvs k of None \<Rightarrow> JNull | Some v \<Rightarrow> v)"
| "get_property (JArr xs) k =
     (if k = ''length'' then JNum (Finite (of_nat (length xs)))
      else case array_index k of None \<Rightarrow> JNull | Some i \<Rightarrow> if i < length xs then xs ! i else JNull)"
| "get_property (JStr s) k =
     (if k = ''length'' then JNum (Finite (of_nat (length s)))
      else case array_index k of None \<Rightarrow> JNull | Some i \<Rightarrow> if i < length s then JStr [s ! i] else JNull)"
| "get_property _ k = JNull"

text \<open>
  \<^verbatim>\<open>Object.is(allowed, value)\<close> for an allowed value of an enumeration and a value that
  \<^verbatim>\<open>JSON.parse\<close> made: an array or an object it made is never the same as anything else,
  and two numbers are the same when they are the same \<^typ>\<open>number\<close>.
\<close>

fun Object_is :: "SchemaEnumValue \<Rightarrow> json \<Rightarrow> bool" where
  "Object_is (EStr s) (JStr t) = (s = t)"
| "Object_is (ENum a) (JNum b) = (a = b)"
| "Object_is (EBool a) (JBool b) = (a = b)"
| "Object_is ENull JNull = True"
| "Object_is _ _ = False"

definition matchesEnum :: "SchemaEnumValue list \<Rightarrow> json \<Rightarrow> bool" where
  "matchesEnum allowed_values v = list_ex (\<lambda>allowed. Object_is allowed v) allowed_values"

text \<open>The body of the loop over the schema's fields, lines 310 to 328, once the own
  property has been looked up: the value that line 329 assigns.\<close>

definition normalize_value :: "SchemaNode \<Rightarrow> json \<Rightarrow> json" where
  "normalize_value field v0 =
     (let v1 = (case enum_values field of
                  None \<Rightarrow> v0
                | Some allowed_values \<Rightarrow>
                    if v0 \<noteq> JNull \<and> \<not> matchesEnum allowed_values v0 then JNull else v0)
      in case (field, v1) of
           (ArraySchemaNode _ _ item, JArr entries) \<Rightarrow>
             (case enum_values item of
                None \<Rightarrow> v1
              | Some itemEnum \<Rightarrow>
                  if itemEnum \<noteq> [] \<and> node_type item \<noteq> ''object'' \<and> node_type item \<noteq> ''array''
                  then JArr (filter (\<lambda>entry. matchesEnum itemEnum entry) entries)
                  else v1)
         | _ \<Rightarrow> v1)"

text \<open>
  The loop of lines 309 to 330 over \<^verbatim>\<open>Object.entries(schema.properties)\<close>, which fills the
  object literal \<^verbatim>\<open>normalized\<close>. The assignment \<^verbatim>\<open>normalized[fieldId] = value\<close> of line
  329 makes an own property for every name but \<^verbatim>\<open>__proto__\<close>: that name is an accessor of
  \<^verbatim>\<open>Object.prototype\<close>, so the assignment runs its setter, which changes the prototype of
  \<^verbatim>\<open>normalized\<close> (or nothing, for a value that is neither an object nor \<^verbatim>\<open>null\<close>) and
  makes no property. The names of a schema are distinct, so the properties are listed in
  the order of the schema.
\<close>

fun normalize_parsed :: "(string \<times> SchemaNode) list \<Rightarrow> json \<Rightarrow> error + jsobject" where
  "normalize_parsed [] parsed_value = Inr []"
| "normalize_parsed ((fieldId, field) # more_fields) parsed_value =
     (case hasOwnProperty parsed_value fieldId of
        Inl e \<Rightarrow> Inl e
      | Inr hasField \<Rightarrow>
          (case normalize_parsed more_fields parsed_value of
             Inl e \<Rightarrow> Inl e
           | Inr rest \<Rightarrow>
               (let v = normalize_value field
                          (if hasField then get_property parsed_value fieldId else JNull)
                in if fieldId = ''__proto__'' then Inr rest else Inr ((fieldId, v) # rest))))"

text \<open>
  Lines 293 to 305: the text of the response (empty when the call failed or the content
  is missing) and the value parsed from it (the empty object when the text is empty or
  does not parse).
\<close>

definition rawRespStr_of :: "completion \<Rightarrow> string" where
  "rawRespStr_of c =
     (case c of Rejected \<Rightarrow> [] | Resolved None \<Rightarrow> [] | Resolved (Some content) \<Rightarrow> content)"

definition parse_chunk_response :: "Host \<Rightarrow> string \<Rightarrow> json" where
  "parse_chunk_response host rawRespStr =
     (if rawRespStr \<noteq> [] then
        (case JSON_parse host rawRespStr of None \<Rightarrow> JObj [] | Some v \<Rightarrow> v)
      else JObj [])"

text \<open>The request for a chunk, lines 274 to 290, and what the worker makes of the
  settled call, lines 293 to 332: the \<^verbatim>\<open>ChunkResult\<close> it pushes.\<close>

definition chunk_request :: "Host \<Rightarrow> IntextParams \<Rightarrow> jsobject \<Rightarrow> SchemaField \<Rightarrow> Chunk \<Rightarrow> jsobject" where
  "chunk_request host params llm sch chunk =
     requestBody params llm (buildPromptForChunk host chunk sch)"

definition process_chunk :: "Host \<Rightarrow> SchemaField \<Rightarrow> Chunk \<Rightarrow> completion \<Rightarrow> error + ChunkResult" where
  "process_chunk host sch chunk settled =
     (let rawRespStr = rawRespStr_of settled;
          parsed_value = parse_chunk_response host rawRespStr
      in case normalize_parsed (properties sch) parsed_value of
           Inl e \<Rightarrow> Inl e
         | Inr normalized \<Rightarrow>
             Inr \<lparr> chunkId = id_chunk chunk, parsed = normalized, raw = rawRespStr \<rparr>)"

section \<open>The workers\<close>

text \<open>
  The state that the workers of one \<^verbatim>\<open>extract\<close> call share: the \<^verbatim>\<open>pointer\<close> to the
  next unclaimed chunk and the \<^verbatim>\<open>rawResults\<close> pushed so far. \<open>requests\<close> records every
  request object handed to \<^verbatim>\<open>openai.chat.completions.create\<close>, in the order of the calls;
  \<open>inflight\<close> holds, for each worker suspended at its \<^verbatim>\<open>await\<close>, the index of its chunk
  and the number of its call.
\<close>

record Pool =
  pointer :: nat
  inflight :: "(nat \<times> nat) list"
  rawResults :: "ChunkResult list"
  requests :: "jsobject list"

text \<open>
  The top of the worker's loop: \<^verbatim>\<open>const idx = pointer++\<close>, then either the
  \<^verbatim>\<open>break\<close> or the call for the chunk, at which the worker suspends.
\<close>

definition claim ::
  "(Chunk \<Rightarrow> jsobject) \<Rightarrow> Chunk list \<Rightarrow> Pool \<Rightarrow> (nat \<times> nat) option \<times> Pool" where
  "claim request_of chunks st =
     (let idx = pointer st;
          st' = st\<lparr> pointer := pointer st + 1 \<rparr>
      in if idx \<ge> length chunks then (None, st')
         else (Some (idx, length (requests st')),
               st'\<lparr> requests := requests st' @ [request_of (chunks ! idx)] \<rparr>))"

text \<open>\<^verbatim>\<open>for (let i = 0; i < wcount; i++) workers.push(worker())\<close>: each worker runs
  up to its first \<^verbatim>\<open>await\<close>.\<close>

fun spawn :: "(Chunk \<Rightarrow> jsobject) \<Rightarrow> Chunk list \<Rightarrow> nat \<Rightarrow> Pool \<Rightarrow> Pool" where
  "spawn request_of chunks 0 st = st"
| "spawn request_of chunks (Suc w) st =
     (case claim request_of chunks st of
        (None, st') \<Rightarrow> spawn request_of chunks w st'
      | (Some awaited, st') \<Rightarrow>
          spawn request_of chunks w (st'\<lparr> inflight := inflight st' @ [awaited] \<rparr>))"

text \<open>
  The worker suspended at position \<open>k\<close> resumes with what its call has settled to
  (\<open>answer\<close>): it parses and normalizes the response (\<open>body\<close>), pushes the result, and
  claims again. A worker that finds no chunk left returns; a worker whose body throws
  rejects its promise.
\<close>

definition resume ::
  "(Chunk \<Rightarrow> jsobject) \<Rightarrow> (nat \<Rightarrow> jsobject \<Rightarrow> completion)
     \<Rightarrow> (Chunk \<Rightarrow> completion \<Rightarrow> error + ChunkResult) \<Rightarrow> Chunk list \<Rightarrow> nat \<Rightarrow> Pool
     \<Rightarrow> error + Pool" where
  "resume request_of answer body chunks k st =
     (case inflight st ! k of
        (idx, call) \<Rightarrow>
          (case body (chunks ! idx) (answer call (requests st ! call)) of
             Inl e \<Rightarrow> Inl e
           | Inr cr \<Rightarrow>
               (case claim request_of chunks (st\<lparr> rawResults := rawResults st @ [cr] \<rparr>) of
                  (None, st') \<Rightarrow>
                    Inr (st'\<lparr> inflight := take k (inflight st') @ drop (Suc k) (inflight st') \<rparr>)
                | (Some awaited, st') \<Rightarrow>
                    Inr (st'\<lparr> inflight := (inflight st')[k := awaited] \<rparr>))))"

text \<open>
  The event loop until every worker has left its loop. Which suspended worker resumes
  next is the choice of the schedule \<open>sched\<close> (the first one once the schedule is used
  up): the order in which the responses arrive is not the program's to decide. A
  rejected worker rejects \<^verbatim>\<open>Promise.all\<close>, which ends the \<^verbatim>\<open>extract\<close> call.
\<close>

function run_workers ::
  "(Chunk \<Rightarrow> jsobject) \<Rightarrow> (nat \<Rightarrow> jsobject \<Rightarrow> completion)
     \<Rightarrow> (Chunk \<Rightarrow> completion \<Rightarrow> error + ChunkResult) \<Rightarrow> Chunk list \<Rightarrow> nat list \<Rightarrow> Pool
     \<Rightarrow> error option \<times> Pool" where
  "run_workers request_of answer body chunks sched st =
     (if inflight st = [] then (None, st)
      else
        (let k = (case sched of [] \<Rightarrow> 0 | c # _ \<Rightarrow> c mod length (inflight st))
         in case resume request_of answer body chunks k st of
              Inl e \<Rightarrow> (Some e, st)
            | Inr st' \<Rightarrow> run_workers request_of answer body chunks (tl sched) st'))"
  by pat_completeness auto
termination
proof (relation "measure (\<lambda>(request_of, answer, body, chunks, sched, st).
                   (length chunks - pointer st) + length (inflight st))", goal_cases)
  case 1
  show ?case by simp
next
  case (2 request_of answer body chunks sched st k st')
  from 2(1,2) have k: "k < length (inflight st)"
    by (auto split: list.splits)
  from 2(3) k
  have "length chunks - pointer st' + length (inflight st')
          < length chunks - pointer st + length (inflight st)"
    by (auto simp: resume_def claim_def Let_def split: sum.splits if_splits prod.splits)
  then show ?case by simp
qed

declare run_workers.simps [simp del]

section \<open>The extract call\<close>

text \<open>Lines 336 to 344: the workers, then \<^verbatim>\<open>rawResults.sort\<close> by \<^verbatim>\<open>chunkId\<close>
  (a stable sort).\<close>

definition run_extraction ::
  "Host \<Rightarrow> IntextParams \<Rightarrow> jsobject \<Rightarrow> SchemaField \<Rightarrow> int \<Rightarrow> nat list \<Rightarrow> Chunk list
     \<Rightarrow> (error + ChunkResult list) \<times> jsobject list" where
  "run_extraction host params llm sch conc sched chunks =
     (let wcount = nat (max 1 (min conc (int (length chunks))));
          st0 = spawn (chunk_request host params llm sch) chunks wcount
                  \<lparr> pointer = 0, inflight = [], rawResults = [], requests = [] \<rparr>
      in case run_workers (chunk_request host params llm sch) (openai params)
                (process_chunk host sch) chunks sched st0 of
           (Some e, st) \<Rightarrow> (Inl e, requests st)
         | (None, st) \<Rightarrow> (Inr (sort_key chunkId (rawResults st)), requests st))"

text \<open>Lines 363 to 383: what the reduction call leaves in \<^verbatim>\<open>finalJson\<close>.\<close>

definition final_json :: "Host \<Rightarrow> completion \<Rightarrow> jsobject" where
  "final_json host c =
     (case c of
        Rejected \<Rightarrow> []
      | Resolved content \<Rightarrow>
          (let rawRespStr = (case content of None \<Rightarrow> [] | Some s \<Rightarrow> s);
               parsed_value =
                 (if rawRespStr \<noteq> [] then
                    (case JSON_parse host rawRespStr of None \<Rightarrow> JNull | Some v \<Rightarrow> v)
                  else JNull)
           in case parsed_value of JObj kvs \<Rightarrow> kvs | _ \<Rightarrow> []))"

definition reduction_request ::
  "Host \<Rightarrow> IntextParams \<Rightarrow> jsobject \<Rightarrow> SchemaField \<Rightarrow> ChunkResult list \<Rightarrow> jsobject" where
  "reduction_request host params llm sch results =
     requestBody params llm (buildFinalReductionPrompt host results sch)"

text \<open>
  \<^verbatim>\<open>r.parsed[fieldId] !== null && r.parsed[fieldId] !== undefined\<close>, line 389. A property
  that the object does not own is read from its prototype: \<^verbatim>\<open>Object.prototype\<close> has the
  names below, all with a value that is not \<^verbatim>\<open>null\<close>, and no other. (The prototype of a
  result is another one only after an assignment to \<^verbatim>\<open>__proto__\<close>; the loop reads the
  fields of the schema, and a result owns them all but that one.)
\<close>

definition Object_prototype_names :: "string list" where
  "Object_prototype_names =
     [''constructor'', ''hasOwnProperty'', ''isPrototypeOf'', ''propertyIsEnumerable'',
      ''toLocaleString'', ''toString'', ''valueOf'', ''__proto__'', ''__defineGetter__'',
      ''__defineSetter__'', ''__lookupGetter__'', ''__lookupSetter__'']"

definition non_null :: "jsobject \<Rightarrow> string \<Rightarrow> bool" where
  "non_null obj k =
     (case map_of obj k of
        Some v \<Rightarrow> v \<noteq> JNull
      | None \<Rightarrow> k \<in> set Object_prototype_names)"

text \<open>
  Lines 386 to 392: the loop over \<^verbatim>\<open>Object.keys(schema.properties)\<close> that fills the
  object literal \<^verbatim>\<open>provenance\<close>. As in the worker, the assignment
  \<^verbatim>\<open>provenance[fieldId] = { sourceChunks }\<close> makes no property for \<^verbatim>\<open>__proto__\<close>.
\<close>

definition provenance :: "SchemaField \<Rightarrow> ChunkResult list \<Rightarrow> (string \<times> nat list) list" where
  "provenance sch results =
     map (\<lambda>fieldId.
            (fieldId, map chunkId (filter (\<lambda>r. non_null (parsed r) fieldId) results)))
         (filter (\<lambda>fieldId. fieldId \<noteq> ''__proto__'') (map fst (properties sch)))"

text \<open>The destructuring of \<^verbatim>\<open>opts\<close> with its defaults, lines 245 to 253.\<close>

definition chunkTokens_of :: "ExtractOptions \<Rightarrow> int" where
  "chunkTokens_of opts = (case chunkTokens opts of None \<Rightarrow> 1500 | Some n \<Rightarrow> n)"

definition overlapTokens_of :: "ExtractOptions \<Rightarrow> int" where
  "overlapTokens_of opts = (case overlapTokens opts of None \<Rightarrow> 300 | Some n \<Rightarrow> n)"

definition concurrency_of :: "ExtractOptions \<Rightarrow> int" where
  "concurrency_of opts = (case concurrency opts of None \<Rightarrow> 3 | Some n \<Rightarrow> n)"

definition tokenizer_of :: "Host \<Rightarrow> ExtractOptions \<Rightarrow> string \<Rightarrow> string list" where
  "tokenizer_of host opts = (case tokenizer opts of None \<Rightarrow> defaultTokenizer host | Some t \<Rightarrow> t)"

definition llmCallOptions_of :: "ExtractOptions \<Rightarrow> jsobject" where
  "llmCallOptions_of opts = (case llmCallOptions opts of None \<Rightarrow> [] | Some l \<Rightarrow> l)"

text \<open>
  The body of \<^verbatim>\<open>extract(text, opts)\<close>, lines 245 to 402, with the requests it has issued
  when it ends: \<open>Inl\<close> is what the body throws, \<open>Inr\<close> what it returns. The reduction is
  the call that follows those of the chunks. \<^verbatim>\<open>debugLog\<close> only prints and is left out.
\<close>

definition extract_call ::
  "Host \<Rightarrow> IntextParams \<Rightarrow> nat list \<Rightarrow> string \<Rightarrow> ExtractOptions
     \<Rightarrow> (error + ExtractResult) \<times> jsobject list" where
  "extract_call host params sched doc opts =
     (case schema opts of
        None \<Rightarrow> (Inl (Error ''schema is required''), [])
      | Some sch \<Rightarrow>
          (case buildChunks doc (chunkTokens_of opts) (overlapTokens_of opts)
                  (tokenizer_of host opts) of
             Inl e \<Rightarrow> (Inl e, [])
           | Inr chunks \<Rightarrow>
               (case run_extraction host params (llmCallOptions_of opts) sch
                       (concurrency_of opts) sched chunks of
                  (Inl e, reqs) \<Rightarrow> (Inl e, reqs)
                | (Inr results, reqs) \<Rightarrow>
                    (let request =
                           reduction_request host params (llmCallOptions_of opts) sch results;
                         finalJson = final_json host (openai params (length reqs) request)
                     in (Inr \<lparr> json = finalJson,
                               metadata = \<lparr> chunkCount = length chunks,
                                            perFieldProvenance = provenance sch results,
                                            rawChunkResults = results \<rparr> \<rparr>,
                         reqs @ [request])))))"

text \<open>
  \<^verbatim>\<open>extract\<close> is declared \<^verbatim>\<open>async\<close> (line 244). A call of an \<^verbatim>\<open>async\<close> function ends in
  one way only: it returns a promise. What the body throws, at whatever point, is never
  thrown to the caller: it is the reason the promise is rejected with. What the body
  returns is the value the promise is fulfilled with.
\<close>

datatype 'a promise = Fulfilled 'a | RejectedWith error

datatype 'a invocation = Throws error | Returns 'a

definition extract_async ::
  "Host \<Rightarrow> IntextParams \<Rightarrow> nat list \<Rightarrow> string \<Rightarrow> ExtractOptions
     \<Rightarrow> ExtractResult promise invocation \<times> jsobject list" where
  "extract_async host params sched doc opts =
     (case extract_call host params sched doc opts of
        (Inl e, reqs) \<Rightarrow> (Returns (RejectedWith e), reqs)
      | (Inr res, reqs) \<Rightarrow> (Returns (Fulfilled res), reqs))"

section \<open>Notions the properties are stated with\<close>

text \<open>Every token is found in the document at or after the end of the one before it:
  the loop over the tokens never takes its fallback branch.\<close>

fun tokens_located :: "string \<Rightarrow> string list \<Rightarrow> nat \<Rightarrow> bool" where
  "tokens_located doc [] searchIdx = True"
| "tokens_located doc (tok # toks) searchIdx =
     (case indexOf doc tok searchIdx of
        None \<Rightarrow> False
      | Some found \<Rightarrow> tokens_located doc toks (found + length tok))"

text \<open>
  What the call for a window settles to, and what the worker makes of it. The worker that
  claims a chunk issues its call before anything else can run, so the calls go out in the
  order of the chunks: the call for the chunk with id \<open>i\<close> is call number \<open>i\<close>.
\<close>

definition window_response ::
  "Host \<Rightarrow> IntextParams \<Rightarrow> jsobject \<Rightarrow> SchemaField \<Rightarrow> Chunk \<Rightarrow> completion" where
  "window_response host params llm sch c =
     openai params (id_chunk c) (chunk_request host params llm sch c)"

definition window_result ::
  "Host \<Rightarrow> IntextParams \<Rightarrow> jsobject \<Rightarrow> SchemaField \<Rightarrow> Chunk \<Rightarrow> error + ChunkResult" where
  "window_result host params llm sch c =
     process_chunk host sch c (window_response host params llm sch c)"

text \<open>A completion call that failed, or whose response has no text that parses.\<close>

definition failed_or_unparsable :: "Host \<Rightarrow> completion \<Rightarrow> bool" where
  "failed_or_unparsable host c =
     (case c of
        Rejected \<Rightarrow> True
      | Resolved None \<Rightarrow> True
      | Resolved (Some content) \<Rightarrow> content = [] \<or> JSON_parse host content = None)"

text \<open>The object with \<^verbatim>\<open>null\<close> for every field of the schema but \<^verbatim>\<open>__proto__\<close>.\<close>

definition all_null :: "SchemaField \<Rightarrow> jsobject" where
  "all_null sch =
     map (\<lambda>fieldId. (fieldId, JNull))
       (filter (\<lambda>fieldId. fieldId \<noteq> ''__proto__'') (map fst (properties sch)))"

text \<open>A reduction call that failed, or whose response does not parse, or parses to
  something that is not an object.\<close>

definition is_object :: "json \<Rightarrow> bool" where
  "is_object v = (case v of JObj _ \<Rightarrow> True | _ \<Rightarrow> False)"

definition reduction_failed :: "Host \<Rightarrow> completion \<Rightarrow> bool" where
  "reduction_failed host c =
     (case c of
        Rejected \<Rightarrow> True
      | Resolved None \<Rightarrow> True
      | Resolved (Some content) \<Rightarrow>
          (case JSON_parse host content of None \<Rightarrow> True | Some v \<Rightarrow> \<not> is_object v))"


text \<open>
  What holds of the shared state whenever a worker is about to resume: every awaited chunk
  exists, has been claimed, and its call has the number of the chunk; workers are left as
  long as chunks are
  unclaimed; the results pushed and the results still awaited are those of the chunks
  claimed so far; the requests issued are those of the chunks claimed so far, in the order
  of the chunks.
\<close>

definition outcome_at ::
  "(Chunk \<Rightarrow> jsobject) \<Rightarrow> (nat \<Rightarrow> jsobject \<Rightarrow> completion)
     \<Rightarrow> (Chunk \<Rightarrow> completion \<Rightarrow> error + ChunkResult) \<Rightarrow> Chunk list \<Rightarrow> nat
     \<Rightarrow> error + ChunkResult" where
  "outcome_at request_of answer body chunks i =
     body (chunks ! i) (answer i (request_of (chunks ! i)))"

definition pool_inv ::
  "(Chunk \<Rightarrow> jsobject) \<Rightarrow> (nat \<Rightarrow> jsobject \<Rightarrow> completion)
     \<Rightarrow> (Chunk \<Rightarrow> completion \<Rightarrow> error + ChunkResult) \<Rightarrow> Chunk list \<Rightarrow> Pool \<Rightarrow> bool" where
  "pool_inv request_of answer body chunks st =
     ((\<forall>awaited \<in> set (inflight st).
         snd awaited = fst awaited \<and> fst awaited < pointer st \<and> fst awaited < length chunks) \<and>
      (inflight st = [] \<longrightarrow> length chunks \<le> pointer st) \<and>
      mset (map Inr (rawResults st))
        + mset (map (\<lambda>awaited. outcome_at request_of answer body chunks (fst awaited)) (inflight st))
        = mset (map (outcome_at request_of answer body chunks)
                  [0 ..< min (pointer st) (length chunks)]) \<and>
      requests st = map (\<lambda>i. request_of (chunks ! i)) [0 ..< min (pointer st) (length chunks)])"

section \<open>A small run\<close>

text \<open>
  A document of four words cut into four chunks of one token, a schema with an enumerated
  string and an array of enumerated strings, and a client that answers by the text of the
  chunk: a status outside the enumeration and an undeclared key for \<open>w0\<close>, a good answer
  for \<open>w1\<close>, a rejection for \<open>w2\<close>, a text that is not JSON for \<open>w3\<close>.
  \<open>example_parse\<close> is \<^verbatim>\<open>JSON.parse\<close> on the texts that occur.
\<close>

definition example_parse :: "string \<Rightarrow> json option" where
  \<open>example_parse = map_of
     [(''{"status":"unknown","extra":1}'',
         JObj [(''status'', JStr ''unknown''), (''extra'', JNum (Finite 1))]),
      (''{"status":"closed","tags":["a","z"]}'',
         JObj [(''status'', JStr ''closed''), (''tags'', JArr [JStr ''a'', JStr ''z''])]),
      (''{"status":"closed"}'', JObj [(''status'', JStr ''closed'')]),
      (''[1]'', JArr [JNum (Finite 1)]),
      (''null'', JNull),
      (''-0'', JNum NegativeZero),
      (''{"__proto__":"x","status":"closed"}'',
         JObj [(''__proto__'', JStr ''x''), (''status'', JStr ''closed'')]),
      (''{"__proto__":["a"]}'', JObj [(''__proto__'', JArr [JStr ''a''])])]\<close>

definition example_host :: Host where
  "example_host =
     \<lparr> JSON_parse = example_parse,
       defaultTokenizer = words_tokenizer,
       buildPromptForChunk = (\<lambda>chunk sch. text_chunk chunk),
       buildFinalReductionPrompt = (\<lambda>results sch. ''reduce'') \<rparr>"

definition prompt_of :: "jsobject \<Rightarrow> string" where
  "prompt_of request =
     (case map_of request ''messages'' of
        Some (JArr [JObj message]) \<Rightarrow>
          (case map_of message ''content'' of Some (JStr p) \<Rightarrow> p | _ \<Rightarrow> [])
      | _ \<Rightarrow> [])"

definition example_openai :: "nat \<Rightarrow> jsobject \<Rightarrow> completion" where
  \<open>example_openai n request =
     (let p = prompt_of request
      in if p = ''w0'' then Resolved (Some ''{"status":"unknown","extra":1}'')
         else if p = ''w1'' then Resolved (Some ''{"status":"closed","tags":["a","z"]}'')
         else if p = ''w3'' then Resolved (Some ''not json'')
         else if p = ''reduce'' then Resolved (Some ''{"status":"closed"}'')
         else Rejected)\<close>

text \<open>The same client, but answering the reduction with an array; and the same client,
  but answering the first chunk with the text \<^verbatim>\<open>null\<close>.\<close>

definition example_openai_bad_reduction :: "nat \<Rightarrow> jsobject \<Rightarrow> completion" where
  "example_openai_bad_reduction n request =
     (if prompt_of request = ''reduce'' then Resolved (Some ''[1]'') else example_openai n request)"

definition example_openai_null :: "nat \<Rightarrow> jsobject \<Rightarrow> completion" where
  "example_openai_null n request =
     (if prompt_of request = ''w0'' then Resolved (Some ''null'') else example_openai n request)"

definition example_params :: IntextParams where
  "example_params =
     \<lparr> openai = example_openai,
       clientParams = \<lparr> model = ''mock-model'', other_params = [(''temperature'', JNum (Finite 0))] \<rparr>,
       defaultRequestParams = Some [(''stream'', JBool False)] \<rparr>"

definition example_schema :: SchemaField where
  "example_schema =
     \<lparr> properties =
         [(''status'', StringSchemaNode None (Some [EStr ''open'', EStr ''closed''])),
          (''tags'', ArraySchemaNode None None (StringSchemaNode None (Some [EStr ''a'', EStr ''b''])))],
       required = None, description_root = None, enum_root = None \<rparr>"

definition example_opts :: ExtractOptions where
  "example_opts =
     \<lparr> schema = Some example_schema, chunkTokens = Some 1, overlapTokens = Some 0,
       concurrency = Some 2, tokenizer = None,
       llmCallOptions = Some [(''model'', JStr ''other-model''), (''temperature'', JNum (Finite 1))] \<rparr>"

definition example_doc :: string where
  "example_doc = ''w0 w1 w2 w3''"

text \<open>The four chunks of the document and the four results of the run.\<close>

definition example_chunks :: "Chunk list" where
  "example_chunks =
     [\<lparr> id_chunk = 0, text_chunk = ''w0'', startChar = 0, endChar = 2, tokens = [''w0''] \<rparr>,
      \<lparr> id_chunk = 1, text_chunk = ''w1'', startChar = 3, endChar = 5, tokens = [''w1''] \<rparr>,
      \<lparr> id_chunk = 2, text_chunk = ''w2'', startChar = 6, endChar = 8, tokens = [''w2''] \<rparr>,
      \<lparr> id_chunk = 3, text_chunk = ''w3'', startChar = 9, endChar = 11, tokens = [''w3''] \<rparr>]"

definition example_results :: "ChunkResult list" where
  \<open>example_results =
     [\<lparr> chunkId = 0, parsed = [(''status'', JNull), (''tags'', JNull)],
        raw = ''{"status":"unknown","extra":1}'' \<rparr>,
      \<lparr> chunkId = 1, parsed = [(''status'', JStr ''closed''), (''tags'', JArr [JStr ''a''])],
        raw = ''{"status":"closed","tags":["a","z"]}'' \<rparr>,
      \<lparr> chunkId = 2, parsed = [(''status'', JNull), (''tags'', JNull)], raw = [] \<rparr>,
      \<lparr> chunkId = 3, parsed = [(''status'', JNull), (''tags'', JNull)], raw = ''not json'' \<rparr>]\<close>

definition example_metadata :: Metadata where
  "example_metadata =
     \<lparr> chunkCount = 4,
       perFieldProvenance = [(''status'', [1]), (''tags'', [1])],
       rawChunkResults = example_results \<rparr>"


text \<open>A schema whose array field declares an enumeration of its own.\<close>

definition example_schema_enumerated_array :: SchemaField where
  "example_schema_enumerated_array =
     \<lparr> properties =
         [(''tags'', ArraySchemaNode None (Some [EStr ''a'', EStr ''z''])
                      (StringSchemaNode None (Some [EStr ''a''])))],
       required = None, description_root = None, enum_root = None \<rparr>"

text \<open>
  The schema of the run with one more field, named \<^verbatim>\<open>__proto__\<close>, as
  \<^verbatim>\<open>JSON.parse\<close> makes it of a schema kept in a file; a client that answers the chunk
  \<open>w1\<close> with a value for that field; and the results of that run.
\<close>

definition example_schema_proto :: SchemaField where
  "example_schema_proto =
     example_schema\<lparr> properties :=
       (''__proto__'', StringSchemaNode None None) # properties example_schema \<rparr>"

definition example_openai_proto :: "nat \<Rightarrow> jsobject \<Rightarrow> completion" where
  \<open>example_openai_proto n request =
     (if prompt_of request = ''w1'' then Resolved (Some ''{"__proto__":"x","status":"closed"}'')
      else example_openai n request)\<close>

definition example_params_proto :: IntextParams where
  "example_params_proto = example_params\<lparr> openai := example_openai_proto \<rparr>"

definition example_opts_proto :: ExtractOptions where
  "example_opts_proto = example_opts\<lparr> schema := Some example_schema_proto \<rparr>"

definition example_results_proto :: "ChunkResult list" where
  \<open>example_results_proto =
     [\<lparr> chunkId = 0, parsed = [(''status'', JNull), (''tags'', JNull)],
        raw = ''{"status":"unknown","extra":1}'' \<rparr>,
      \<lparr> chunkId = 1, parsed = [(''status'', JStr ''closed''), (''tags'', JNull)],
        raw = ''{"__proto__":"x","status":"closed"}'' \<rparr>,
      \<lparr> chunkId = 2, parsed = [(''status'', JNull), (''tags'', JNull)], raw = [] \<rparr>,
      \<lparr> chunkId = 3, parsed = [(''status'', JNull), (''tags'', JNull)], raw = ''not json'' \<rparr>]\<close>

definition example_result_proto :: ExtractResult where
  "example_result_proto =
     \<lparr> json = [(''status'', JStr ''closed'')],
       metadata = \<lparr> chunkCount = 4,
                    perFieldProvenance = [(''status'', [1]), (''tags'', [])],
                    rawChunkResults = example_results_proto \<rparr> \<rparr>"

text \<open>A schema whose one field, named \<^verbatim>\<open>__proto__\<close>, is an array with an enumeration of
  its own, and a response that holds an array for it.\<close>

definition example_schema_proto_array :: SchemaField where
  "example_schema_proto_array =
     \<lparr> properties =
         [(''__proto__'', ArraySchemaNode None (Some [EStr ''a'']) (StringSchemaNode None None))],
       required = None, description_root = None, enum_root = None \<rparr>"

definition example_response_proto_array :: completion where
  \<open>example_response_proto_array = Resolved (Some ''{"__proto__":["a"]}'')\<close>

text \<open>
  A tokenizer a caller can pass whose tokens are not pieces of the text: it spells out
  every \<^verbatim>\<open>&\<close> as the word \<^verbatim>\<open>and\<close> and drops the blanks
  (\<^verbatim>\<open>t => [...t].filter(c => c !== " ").map(c => c === "&" ? "and" : c)\<close>).
\<close>

definition ampersand_tokenizer :: "string \<Rightarrow> string list" where
  "ampersand_tokenizer doc =
     map (\<lambda>c. if c = CHR ''&'' then ''and'' else [c]) (filter (\<lambda>c. c \<noteq> CHR '' '') doc)"

section \<open>Properties of the chunker\<close>

lemma indexOf_Some_bound:
  assumes "indexOf doc tok s = Some f"
  shows "f + length tok \<le> length doc"
proof (cases "tok = []")
  case True
  with assms show ?thesis by (auto simp: indexOf_def)
next
  case False
  with assms
  have "List.find (\<lambda>k. take (length tok) (drop k doc) = tok) [s ..< length doc] = Some f"
    by (simp add: indexOf_def)
  then have m: "take (length tok) (drop f doc) = tok" and flt: "f < length doc"
    by (auto simp: find_Some_iff)
  from m have "length (take (length tok) (drop f doc)) = length tok" by simp
  with flt show ?thesis by simp
qed

lemma indexOf_Some_ge:
  assumes "indexOf doc tok s = Some f" and "s \<le> length doc"
  shows "s \<le> f"
proof (cases "tok = []")
  case True
  with assms show ?thesis by (auto simp: indexOf_def)
next
  case False
  with assms
  have "List.find (\<lambda>k. take (length tok) (drop k doc) = tok) [s ..< length doc] = Some f"
    by (simp add: indexOf_def)
  then have "f \<in> set [s ..< length doc]"
    by (auto simp: find_Some_iff)
  then show ?thesis by simp
qed

lemma length_tokenCharPositions [simp]:
  "length (tokenCharPositions doc toks s) = length toks"
  by (induction toks arbitrary: s) (auto split: option.splits)

lemma located_positions_chain:
  "tokens_located doc toks s \<Longrightarrow> s \<le> length doc \<Longrightarrow> i \<le> j \<Longrightarrow> j < length toks \<Longrightarrow>
     s \<le> fst (tokenCharPositions doc toks s ! i) \<and>
     fst (tokenCharPositions doc toks s ! i) \<le> snd (tokenCharPositions doc toks s ! j) \<and>
     snd (tokenCharPositions doc toks s ! j) \<le> length doc"
proof (induction toks arbitrary: s i j)
  case Nil
  then show ?case by simp
next
  case (Cons tok toks)
  from Cons.prems(1) obtain f where f: "indexOf doc tok s = Some f"
    and loc: "tokens_located doc toks (f + length tok)"
    by (auto split: option.splits)
  from indexOf_Some_bound[OF f] have fb: "f + length tok \<le> length doc" .
  from indexOf_Some_ge[OF f Cons.prems(2)] have sf: "s \<le> f" .
  let ?pos' = "tokenCharPositions doc toks (f + length tok)"
  have pos: "tokenCharPositions doc (tok # toks) s = (f, f + length tok) # ?pos'"
    using f by simp
  show ?case
  proof (cases j)
    case 0
    with Cons.prems(3) have "i = 0" by simp
    with 0 pos sf fb show ?thesis by simp
  next
    case (Suc j')
    with Cons.prems(4) have j': "j' < length toks" by simp
    from Cons.IH[OF loc fb order_refl j']
    have jj: "f + length tok \<le> fst (?pos' ! j')" "fst (?pos' ! j') \<le> snd (?pos' ! j')"
      "snd (?pos' ! j') \<le> length doc"
      by auto
    show ?thesis
    proof (cases i)
      case 0
      with Suc pos sf jj show ?thesis by simp
    next
      case (Suc i')
      with \<open>j = Suc j'\<close> Cons.prems(3) have "i' \<le> j'" by simp
      from Cons.IH[OF loc fb this j'] Suc \<open>j = Suc j'\<close> pos sf show ?thesis by simp
    qed
  qed
qed

text \<open>The end of a token's span is clamped to the document in the fallback branch too.\<close>

lemma positions_end_bound:
  "j < length toks \<Longrightarrow> snd (tokenCharPositions doc toks s ! j) \<le> length doc"
proof (induction toks arbitrary: s j)
  case Nil
  then show ?case by simp
next
  case (Cons tok toks)
  show ?case
  proof (cases "indexOf doc tok s")
    case None
    with Cons show ?thesis by (cases j) simp_all
  next
    case (Some found)
    from indexOf_Some_bound[OF Some] Some Cons show ?thesis by (cases j) simp_all
  qed
qed

lemma chunk_at_id: "chunk_at doc toks pos ct i cid = Inr c \<Longrightarrow> id_chunk c = cid"
  by (auto simp: chunk_at_def Let_def split: if_splits)

lemma chunk_at_tokens:
  "chunk_at doc toks pos ct i cid = Inr c \<Longrightarrow>
     tokens c = slice toks i (nat (min (int i + ct) (int (length toks))))"
  by (auto simp: chunk_at_def Let_def split: if_splits)

lemma chunk_at_ok:
  "1 \<le> ct \<Longrightarrow> i < length toks \<Longrightarrow> \<exists>c. chunk_at doc toks pos ct i cid = Inr c"
  by (auto simp: chunk_at_def Let_def)

lemma chunk_at_throws:
  "ct \<le> 0 \<Longrightarrow> chunk_at doc toks pos ct 0 cid = Inl TypeError"
  by (auto simp: chunk_at_def Let_def)

lemma chunk_at_offsets:
  assumes "chunk_at doc toks pos ct i cid = Inr c" and "i < length toks" and "1 \<le> ct"
  shows "\<exists>j. i \<le> j \<and> j < length toks \<and>
             startChar c = fst (pos ! i) \<and> endChar c = snd (pos ! j)"
proof -
  let ?e = "min (int i + ct) (int (length toks))"
  from assms(1) have ge: "\<not> ?e - 1 < 0"
    by (auto simp: chunk_at_def Let_def split: if_splits)
  with assms(1) have "startChar c = fst (pos ! i)" and e: "endChar c = snd (pos ! nat (?e - 1))"
    by (auto simp: chunk_at_def Let_def split: if_splits)
  moreover from ge assms(2) have "nat (?e - 1) < length toks" by auto
  moreover from assms(2,3) have "i \<le> nat (?e - 1)" by auto
  ultimately show ?thesis by blast
qed

lemma chunk_loop_unfold:
  assumes "chunk_loop doc toks pos ct ovl i cid acc = Inr cs" and "i < length toks"
  obtains chunk where "chunk_at doc toks pos ct i cid = Inr chunk"
    and "chunk_loop doc toks pos ct ovl (i + nat (max 1 (ct - ovl))) (cid + 1) (acc @ [chunk]) = Inr cs"
  using assms by (subst (asm) chunk_loop.simps) (auto simp: Let_def split: sum.splits)

text \<open>The ids of the chunks that the loop appends count up from \<open>cid\<close>.\<close>

lemma chunk_loop_ids:
  "chunk_loop doc toks pos ct ovl i cid acc = Inr cs
     \<Longrightarrow> \<exists>new. cs = acc @ new \<and> map id_chunk new = [cid ..< cid + length new]"
proof (induction doc toks pos ct ovl i cid acc rule: chunk_loop.induct)
  case (1 doc toks pos ct ovl i cid acc)
  show ?case
  proof (cases "i < length toks")
    case False
    with "1.prems" show ?thesis by (simp add: chunk_loop.simps)
  next
    case True
    from "1.prems" True obtain chunk where
      c: "chunk_at doc toks pos ct i cid = Inr chunk" and
      run: "chunk_loop doc toks pos ct ovl (i + nat (max 1 (ct - ovl))) (cid + 1) (acc @ [chunk]) = Inr cs"
      by (rule chunk_loop_unfold)
    from "1.IH"[OF True c refl run]
    obtain new where new: "cs = (acc @ [chunk]) @ new"
      "map id_chunk new = [cid + 1 ..< cid + 1 + length new]"
      by blast
    have "cs = acc @ (chunk # new)" using new by simp
    moreover have "map id_chunk (chunk # new) = [cid ..< cid + length (chunk # new)]"
    proof -
      have "map id_chunk (chunk # new) = cid # [cid + 1 ..< cid + 1 + length new]"
        by (simp only: list.map new(2) chunk_at_id[OF c])
      also have "\<dots> = [cid ..< cid + length (chunk # new)]"
        by (simp del: upt_Suc add: upt_conv_Cons)
      finally show ?thesis .
    qed
    ultimately show ?thesis by blast
  qed
qed

text \<open>With a chunk size of at least one token the loop returns.\<close>

lemma chunk_loop_total:
  "1 \<le> ct \<Longrightarrow> \<exists>cs. chunk_loop doc toks pos ct ovl i cid acc = Inr cs"
proof (induction doc toks pos ct ovl i cid acc rule: chunk_loop.induct)
  case (1 doc toks pos ct ovl i cid acc)
  show ?case
  proof (cases "i < length toks")
    case False
    then show ?thesis by (simp add: chunk_loop.simps)
  next
    case True
    from chunk_at_ok[OF "1.prems" True] obtain chunk
      where c: "chunk_at doc toks pos ct i cid = Inr chunk"
      by blast
    from "1.IH"[OF True c refl "1.prems"] True c show ?thesis
      by (subst chunk_loop.simps) (simp add: Let_def)
  qed
qed

text \<open>The \<open>k\<close>-th chunk appended starts \<open>k\<close> steps of
  \<open>max 1 (chunk_tokens - overlap_tokens)\<close> after the cursor.\<close>

lemma chunk_loop_cursor:
  "chunk_loop doc toks pos ct ovl i cid acc = Inr cs \<Longrightarrow> k < length cs - length acc \<Longrightarrow>
     tokens (cs ! (length acc + k))
       = slice toks (i + k * nat (max 1 (ct - ovl)))
           (nat (min (int (i + k * nat (max 1 (ct - ovl))) + ct) (int (length toks))))"
proof (induction doc toks pos ct ovl i cid acc arbitrary: k rule: chunk_loop.induct)
  case (1 doc toks pos ct ovl i cid acc)
  let ?step = "nat (max 1 (ct - ovl))"
  show ?case
  proof (cases "i < length toks")
    case False
    with "1.prems" show ?thesis by (simp add: chunk_loop.simps)
  next
    case True
    from "1.prems"(1) True obtain chunk where
      c: "chunk_at doc toks pos ct i cid = Inr chunk" and
      run: "chunk_loop doc toks pos ct ovl (i + ?step) (cid + 1) (acc @ [chunk]) = Inr cs"
      by (rule chunk_loop_unfold)
    from chunk_loop_ids[OF run] have pre: "\<exists>new. cs = (acc @ [chunk]) @ new"
      by blast
    show ?thesis
    proof (cases k)
      case 0
      from pre have "cs ! length acc = chunk" by (auto simp: nth_append)
      with 0 chunk_at_tokens[OF c] show ?thesis by simp
    next
      case (Suc j)
      with "1.prems"(2) have j: "j < length cs - length (acc @ [chunk])" by simp
      from "1.IH"[OF True c refl run j] Suc show ?thesis
        by (simp add: algebra_simps)
    qed
  qed
qed

lemma chunk_loop_offsets:
  "chunk_loop doc toks pos ct ovl i cid acc = Inr cs \<Longrightarrow> 1 \<le> ct
     \<Longrightarrow> \<forall>c \<in> set acc. \<exists>a b. a \<le> b \<and> b < length toks \<and>
            startChar c = fst (pos ! a) \<and> endChar c = snd (pos ! b)
     \<Longrightarrow> \<forall>c \<in> set cs. \<exists>a b. a \<le> b \<and> b < length toks \<and>
            startChar c = fst (pos ! a) \<and> endChar c = snd (pos ! b)"
proof (induction doc toks pos ct ovl i cid acc rule: chunk_loop.induct)
  case (1 doc toks pos ct ovl i cid acc)
  show ?case
  proof (cases "i < length toks")
    case False
    with "1.prems" show ?thesis by (simp add: chunk_loop.simps)
  next
    case True
    from "1.prems"(1) True obtain chunk where
      c: "chunk_at doc toks pos ct i cid = Inr chunk" and
      run: "chunk_loop doc toks pos ct ovl (i + nat (max 1 (ct - ovl))) (cid + 1) (acc @ [chunk]) = Inr cs"
      by (rule chunk_loop_unfold)
    from chunk_at_offsets[OF c True "1.prems"(2)]
    have "\<exists>a b. a \<le> b \<and> b < length toks \<and>
            startChar chunk = fst (pos ! a) \<and> endChar chunk = snd (pos ! b)"
      by blast
    with "1.prems"(3)
    have "\<forall>c \<in> set (acc @ [chunk]). \<exists>a b. a \<le> b \<and> b < length toks \<and>
            startChar c = fst (pos ! a) \<and> endChar c = snd (pos ! b)"
      by auto
    from "1.IH"[OF True c refl run "1.prems"(2) this] show ?thesis .
  qed
qed

lemma chunk_loop_nonempty:
  assumes "chunk_loop doc toks pos ct ovl i cid acc = Inr cs" and "i < length toks"
  shows "length acc < length cs"
proof -
  from assms obtain chunk where
    run: "chunk_loop doc toks pos ct ovl (i + nat (max 1 (ct - ovl))) (cid + 1) (acc @ [chunk]) = Inr cs"
    by (rule chunk_loop_unfold)
  from chunk_loop_ids[OF run] show ?thesis by auto
qed

text \<open>What \<^verbatim>\<open>buildChunks\<close> returns has the ids \<open>0, 1, 2, \<dots>\<close> in the order of the array.\<close>

lemma buildChunks_ids:
  "buildChunks doc ct ovl tokenize = Inr cs \<Longrightarrow> map id_chunk cs = [0 ..< length cs]"
  by (auto simp: buildChunks_def Let_def split: if_splits dest: chunk_loop_ids)

text \<open>It returns for every document, every overlap and every chunk size of at least one
  token, and the \<open>k\<close>-th chunk holds the tokens from \<open>k * max 1 (ct - ovl)\<close> on.\<close>

lemma buildChunks_total:
  "1 \<le> ct \<Longrightarrow> \<exists>cs. buildChunks doc ct ovl tokenize = Inr cs"
  by (simp add: buildChunks_def Let_def chunk_loop_total)

lemma buildChunks_cursor:
  assumes "buildChunks doc ct ovl tokenize = Inr cs" and "k < length cs"
  shows "tokens (cs ! k)
           = slice (tokenize doc) (k * nat (max 1 (ct - ovl)))
               (nat (min (int (k * nat (max 1 (ct - ovl))) + ct) (int (length (tokenize doc)))))"
proof (cases "tokenize doc = []")
  case True
  with assms show ?thesis by (simp add: buildChunks_def)
next
  case False
  with assms(1)
  have "chunk_loop doc (tokenize doc) (tokenCharPositions doc (tokenize doc) 0) ct ovl 0 0 [] = Inr cs"
    by (simp add: buildChunks_def Let_def)
  from chunk_loop_cursor[OF this, of k] assms(2) show ?thesis by simp
qed

text \<open>With tokens in the document and a chunk size of zero or less it throws.\<close>

lemma buildChunks_throws:
  "tokenize doc \<noteq> [] \<Longrightarrow> ct \<le> 0 \<Longrightarrow> buildChunks doc ct ovl tokenize = Inl TypeError"
  by (simp add: buildChunks_def Let_def chunk_loop.simps[of _ _ _ _ _ 0] chunk_at_throws)

section \<open>Properties of normalization\<close>

lemma hasOwnProperty_total:
  "pv \<noteq> JNull \<Longrightarrow> \<exists>b. hasOwnProperty pv k = Inr b"
  by (cases pv) auto

lemma hasOwnProperty_Inr_not_null:
  "hasOwnProperty pv k = Inr b \<Longrightarrow> pv \<noteq> JNull"
  by (cases pv) simp_all

lemma normalize_total:
  "pv \<noteq> JNull \<Longrightarrow> \<exists>n. normalize_parsed props pv = Inr n"
proof (induction props)
  case Nil
  then show ?case by simp
next
  case (Cons p props)
  obtain k field where p: "p = (k, field)" by (cases p)
  from Cons obtain n where "normalize_parsed props pv = Inr n" by blast
  moreover from Cons.prems obtain b where "hasOwnProperty pv k = Inr b"
    using hasOwnProperty_total by blast
  ultimately show ?case using p by (simp add: Let_def)
qed

lemma normalize_error:
  "normalize_parsed props pv = Inl e \<Longrightarrow> e = TypeError \<and> pv = JNull"
proof (induction props)
  case Nil
  then show ?case by simp
next
  case (Cons p props)
  obtain k field where p: "p = (k, field)" by (cases p)
  show ?case
  proof (cases pv)
    case JNull
    with Cons.prems p show ?thesis by simp
  qed (use Cons p in \<open>auto simp: Let_def split: sum.splits if_splits\<close>)
qed

lemma normalize_keys:
  "normalize_parsed props pv = Inr n \<Longrightarrow>
     map fst n = filter (\<lambda>k. k \<noteq> ''__proto__'') (map fst props)"
proof (induction props arbitrary: n)
  case Nil
  then show ?case by simp
next
  case (Cons p props)
  obtain k field where p: "p = (k, field)" by (cases p)
  from Cons.prems p obtain rest where "normalize_parsed props pv = Inr rest"
    "map fst n = (if k = ''__proto__'' then map fst rest else k # map fst rest)"
    by (auto simp: Let_def split: sum.splits if_splits)
  with Cons.IH p show ?case by simp
qed

lemma normalize_no_proto:
  assumes "normalize_parsed props pv = Inr n"
  shows "map_of n ''__proto__'' = None"
proof -
  from normalize_keys[OF assms] have "''__proto__'' \<notin> set (map fst n)"
    by simp
  then show ?thesis
    by (simp add: map_of_eq_None_iff)
qed

lemma normalize_lookup:
  "normalize_parsed props pv = Inr n \<Longrightarrow> distinct (map fst props) \<Longrightarrow> (k, field) \<in> set props \<Longrightarrow>
     hasOwnProperty pv k = Inr b \<Longrightarrow> k \<noteq> ''__proto__'' \<Longrightarrow>
     map_of n k = Some (normalize_value field (if b then get_property pv k else JNull))"
proof (induction props arbitrary: n)
  case Nil
  then show ?case by simp
next
  case (Cons p props)
  obtain k' field' where p: "p = (k', field')" by (cases p)
  from Cons.prems(1) p obtain rest b' where rest: "normalize_parsed props pv = Inr rest"
    and b': "hasOwnProperty pv k' = Inr b'"
    and n: "n = (if k' = ''__proto__'' then rest
                 else (k', normalize_value field' (if b' then get_property pv k' else JNull)) # rest)"
    by (auto simp: Let_def split: sum.splits if_splits)
  show ?case
  proof (cases "k = k'")
    case True
    with Cons.prems(2,3) p have "field = field'"
      by (auto simp: image_iff)
    with True n b' Cons.prems(4,5) show ?thesis by simp
  next
    case False
    with Cons.prems(3) p have "(k, field) \<in> set props" by auto
    from Cons.IH[OF rest _ this Cons.prems(4,5)] Cons.prems(2) False n show ?thesis by simp
  qed
qed

lemma normalize_value_null [simp]: "normalize_value field JNull = JNull"
  by (simp add: normalize_value_def split: option.splits SchemaNode.splits)

lemma normalize_empty_object:
  "normalize_parsed props (JObj [])
     = Inr (map (\<lambda>fieldId. (fieldId, JNull)) (filter (\<lambda>k. k \<noteq> ''__proto__'') (map fst props)))"
  by (induction props) (auto simp: Let_def)

lemma matchesEnum_array [simp]: "\<not> matchesEnum allowed_values (JArr entries)"
  by (induction allowed_values) (simp_all add: matchesEnum_def)

lemma normalize_value_enum_mismatch:
  "enum_values field = Some allowed_values \<Longrightarrow> \<not> matchesEnum allowed_values v \<Longrightarrow>
     normalize_value field v = JNull"
  by (cases "v = JNull") (simp_all add: normalize_value_def split: SchemaNode.splits)

lemma normalize_value_array_enum:
  "normalize_value (ArraySchemaNode d (Some allowed_values) item) (JArr entries) = JNull"
  by (simp add: normalize_value_enum_mismatch)

lemma normalize_value_item_filter:
  "enum_values item = Some itemEnum \<Longrightarrow> itemEnum \<noteq> [] \<Longrightarrow>
   node_type item \<noteq> ''object'' \<Longrightarrow> node_type item \<noteq> ''array'' \<Longrightarrow>
     normalize_value (ArraySchemaNode d None item) (JArr entries)
       = JArr (filter (matchesEnum itemEnum) entries)"
  by (simp add: normalize_value_def)

lemma normalize_value_item_enum_empty:
  "enum_values item = Some [] \<Longrightarrow>
     normalize_value (ArraySchemaNode d None item) (JArr entries) = JArr entries"
  by (simp add: normalize_value_def)

lemma parse_failed_or_unparsable:
  "failed_or_unparsable host c \<Longrightarrow> parse_chunk_response host (rawRespStr_of c) = JObj []"
  by (auto simp: failed_or_unparsable_def parse_chunk_response_def rawRespStr_of_def
           split: completion.splits option.splits)

lemma process_chunk_failed:
  "failed_or_unparsable host settled \<Longrightarrow>
     process_chunk host sch c settled
       = Inr \<lparr> chunkId = id_chunk c, parsed = all_null sch, raw = rawRespStr_of settled \<rparr>"
  by (simp add: process_chunk_def Let_def parse_failed_or_unparsable normalize_empty_object all_null_def)

lemma process_chunk_error:
  "process_chunk host sch c settled = Inl e \<Longrightarrow> e = TypeError"
  by (auto simp: process_chunk_def Let_def split: sum.splits dest: normalize_error)

lemma process_chunk_chunkId:
  "process_chunk host sch c settled = Inr cr \<Longrightarrow> chunkId cr = id_chunk c"
  by (auto simp: process_chunk_def Let_def split: sum.splits)

section \<open>Properties of the workers\<close>

lemma claim_None:
  "claim request_of chunks st = (None, st') \<Longrightarrow>
     length chunks \<le> pointer st \<and> st' = st\<lparr> pointer := pointer st + 1 \<rparr>"
  by (auto simp: claim_def Let_def split: if_splits)

lemma claim_Some:
  "claim request_of chunks st = (Some awaited, st') \<Longrightarrow>
     awaited = (pointer st, length (requests st)) \<and> pointer st < length chunks \<and>
     st' = st\<lparr> pointer := pointer st + 1,
                requests := requests st @ [request_of (chunks ! pointer st)] \<rparr>"
  by (auto simp: claim_def Let_def split: if_splits)

lemma upt_min_Suc:
  "p < n \<Longrightarrow> [0 ..< min (p + 1) n] = [0 ..< min p n] @ [p]"
  by (simp add: min_def)

lemma mset_remove_nth:
  "k < length xs \<Longrightarrow> mset (take k xs @ drop (Suc k) xs) + {#xs ! k#} = mset xs"
  by (metis add_mset_add_single id_take_nth_drop mset.simps(2) mset_append union_mset_add_mset_right)

lemma mset_map_remove_nth:
  "k < length xs \<Longrightarrow>
     mset (map f (take k xs @ drop (Suc k) xs)) + {#f (xs ! k)#} = mset (map f xs)"
  by (metis (no_types, lifting) drop_map length_map map_append
    mset_remove_nth nth_map take_map)

lemma mset_map_update:
  "k < length xs \<Longrightarrow>
     mset (map f (xs[k := y])) + {#f (xs ! k)#} = mset (map f xs) + {#f y#}"
  by (simp add: map_update mset_update)

lemma pool_inv_resume:
  assumes inv: "pool_inv request_of answer body chunks st"
    and k: "k < length (inflight st)"
    and res: "resume request_of answer body chunks k st = Inr st'"
  shows "pool_inv request_of answer body chunks st'"
proof -
  let ?out = "outcome_at request_of answer body chunks"
  let ?f = "\<lambda>awaited. ?out (fst awaited)"
  let ?n = "length chunks"
  obtain idx call where aw: "inflight st ! k = (idx, call)"
    by (cases "inflight st ! k")
  from inv have bound: "\<forall>awaited \<in> set (inflight st).
        snd awaited = fst awaited \<and> fst awaited < pointer st \<and> fst awaited < ?n"
    and ms: "mset (map Inr (rawResults st)) + mset (map ?f (inflight st))
               = mset (map ?out [0 ..< min (pointer st) ?n])"
    and rq: "requests st = map (\<lambda>i. request_of (chunks ! i)) [0 ..< min (pointer st) ?n]"
    by (auto simp: pool_inv_def)
  from bound k aw have call: "call = idx" and idx: "idx < pointer st" "idx < ?n"
    by (metis fst_conv nth_mem snd_conv)+
  from rq idx have "requests st ! idx = request_of (chunks ! idx)"
    by simp
  with call have body: "body (chunks ! idx) (answer call (requests st ! call)) = ?out idx"
    by (simp add: outcome_at_def)
  from rq have len: "length (requests st) = min (pointer st) ?n"
    by simp
  from res aw body obtain cr where cr: "?out idx = Inr cr"
    by (auto simp: resume_def split: sum.splits)
  let ?st1 = "st\<lparr> rawResults := rawResults st @ [cr] \<rparr>"
  obtain nxt st2 where cl: "claim request_of chunks ?st1 = (nxt, st2)"
    by (cases "claim request_of chunks ?st1")
  show ?thesis
  proof (cases nxt)
    case None
    with cl have p: "?n \<le> pointer st" and st2: "st2 = ?st1\<lparr> pointer := pointer st + 1 \<rparr>"
      using claim_None[of request_of chunks ?st1 st2] by auto
    from res aw body cr cl None
    have st': "st' = st2\<lparr> inflight := take k (inflight st2) @ drop (Suc k) (inflight st2) \<rparr>"
      by (simp add: resume_def)
    have m: "mset (map ?f (take k (inflight st) @ drop (Suc k) (inflight st))) + {#Inr cr#}
               = mset (map ?f (inflight st))"
      using mset_map_remove_nth[OF k, of ?f] cr aw by simp
    have "mset (map Inr (rawResults st')) + mset (map ?f (inflight st'))
            = mset (map Inr (rawResults st)) + mset (map ?f (inflight st))"
      unfolding st' st2 using m by (simp add: ac_simps)
    moreover have "min (pointer st') ?n = min (pointer st) ?n"
      unfolding st' st2 using p by simp
    moreover have "\<forall>awaited \<in> set (inflight st').
        snd awaited = fst awaited \<and> fst awaited < pointer st' \<and> fst awaited < ?n"
    proof
      fix awaited assume "awaited \<in> set (inflight st')"
      then have "awaited \<in> set (inflight st)"
        unfolding st' st2 by (auto dest: in_set_takeD in_set_dropD)
      with bound show "snd awaited = fst awaited \<and> fst awaited < pointer st' \<and> fst awaited < ?n"
        unfolding st' st2 by auto
    qed
    moreover have "?n \<le> pointer st'" unfolding st' st2 using p by simp
    moreover have "requests st' = requests st" unfolding st' st2 by simp
    ultimately show ?thesis using ms rq by (simp add: pool_inv_def)
  next
    case (Some awaited)
    with cl len have nx: "awaited = (pointer st, pointer st)" and p: "pointer st < ?n"
      and st2: "st2 = ?st1\<lparr> pointer := pointer st + 1,
                  requests := requests st @ [request_of (chunks ! pointer st)] \<rparr>"
      using claim_Some[of request_of chunks ?st1 awaited st2] by auto
    from res aw body cr cl Some
    have st': "st' = st2\<lparr> inflight := (inflight st2)[k := awaited] \<rparr>"
      by (simp add: resume_def)
    have m: "mset (map ?f ((inflight st)[k := awaited])) + {#Inr cr#}
               = mset (map ?f (inflight st)) + {#?out (pointer st)#}"
      using mset_map_update[OF k, of ?f awaited] cr aw nx by simp
    have up: "[0 ..< min (pointer st') ?n] = [0 ..< min (pointer st) ?n] @ [pointer st]"
      unfolding st' st2 using upt_min_Suc[OF p] by simp
    have "mset (map Inr (rawResults st')) + mset (map ?f (inflight st'))
            = mset (map Inr (rawResults st)) + mset (map ?f (inflight st)) + {#?out (pointer st)#}"
      unfolding st' st2 using m by (simp add: ac_simps)
    then have "mset (map Inr (rawResults st')) + mset (map ?f (inflight st'))
            = mset (map ?out [0 ..< min (pointer st') ?n])"
      unfolding up using ms by simp
    moreover have "\<forall>awaited \<in> set (inflight st').
        snd awaited = fst awaited \<and> fst awaited < pointer st' \<and> fst awaited < ?n"
    proof
      fix a assume "a \<in> set (inflight st')"
      then have "a = awaited \<or> a \<in> set (inflight st)"
        unfolding st' st2 using set_update_subset_insert[of "inflight st" k awaited] by auto
      with bound nx p show "snd a = fst a \<and> fst a < pointer st' \<and> fst a < ?n"
        unfolding st' st2 by auto
    qed
    moreover have "inflight st' \<noteq> []" unfolding st' st2 using k by auto
    moreover have "requests st' = map (\<lambda>i. request_of (chunks ! i)) [0 ..< min (pointer st') ?n]"
      unfolding up unfolding st' st2 using rq by simp
    ultimately show ?thesis by (simp add: pool_inv_def)
  qed
qed

lemma spawn_closed_form:
  "spawn request_of chunks w \<lparr> pointer = p, inflight = infl, rawResults = rs, requests = rq \<rparr>
     = \<lparr> pointer = p + w,
         inflight = infl @ map (\<lambda>i. (i, length rq + (i - p))) [p ..< min (p + w) (length chunks)],
         rawResults = rs,
         requests = rq @ map (\<lambda>i. request_of (chunks ! i)) [p ..< min (p + w) (length chunks)] \<rparr>"
proof (induction w arbitrary: p infl rq)
  case 0
  then show ?case by simp
next
  case (Suc w)
  show ?case
  proof (cases "p < length chunks")
    case True
    then have "[p ..< min (p + Suc w) (length chunks)] = p # [Suc p ..< min (Suc p + w) (length chunks)]"
      by (simp add: upt_conv_Cons del: upt_Suc)
    moreover have "map (\<lambda>i. (i, Suc (length rq) + (i - Suc p))) [Suc p ..< min (Suc p + w) (length chunks)]
        = map (\<lambda>i. (i, length rq + (i - p))) [Suc p ..< min (Suc p + w) (length chunks)]"
      by (rule map_cong) auto
    ultimately show ?thesis using True
      by (simp add: claim_def Let_def Suc.IH del: upt_Suc)
  next
    case False
    then show ?thesis
      by (simp add: claim_def Let_def Suc.IH del: upt_Suc)
  qed
qed

lemma pool_inv_spawn:
  assumes "0 < w"
  shows "pool_inv request_of answer body chunks
           (spawn request_of chunks w \<lparr> pointer = 0, inflight = [], rawResults = [], requests = [] \<rparr>)"
  using assms by (auto simp: spawn_closed_form pool_inv_def min_def comp_def)

lemma run_workers_inv:
  "pool_inv request_of answer body chunks st \<Longrightarrow>
   run_workers request_of answer body chunks sched st = (r, st') \<Longrightarrow>
     pool_inv request_of answer body chunks st' \<and>
     (case r of
        None \<Rightarrow> inflight st' = []
      | Some e \<Rightarrow> \<exists>i < length chunks. outcome_at request_of answer body chunks i = Inl e)"
proof (induction request_of answer body chunks sched st rule: run_workers.induct)
  case (1 request_of answer body chunks sched st)
  show ?case
  proof (cases "inflight st = []")
    case True
    with "1.prems" show ?thesis by (simp add: run_workers.simps)
  next
    case False
    define k where "k = (case sched of [] \<Rightarrow> 0 | c # _ \<Rightarrow> c mod length (inflight st))"
    from False have k: "k < length (inflight st)"
      by (auto simp: k_def split: list.splits)
    show ?thesis
    proof (cases "resume request_of answer body chunks k st")
      case (Inl e)
      with False "1.prems"(2) have r: "r = Some e" "st' = st"
        by (auto simp: run_workers.simps[of _ _ _ _ _ st] k_def Let_def)
      obtain idx call where aw: "inflight st ! k = (idx, call)"
        by (cases "inflight st ! k")
      from "1.prems"(1) k aw have call: "call = idx" and idx: "idx < pointer st" "idx < length chunks"
        unfolding pool_inv_def by (metis fst_conv nth_mem snd_conv)+
      from "1.prems"(1) idx have "requests st ! idx = request_of (chunks ! idx)"
        by (simp add: pool_inv_def)
      with Inl aw call have "outcome_at request_of answer body chunks idx = Inl e"
        by (auto simp: resume_def outcome_at_def split: sum.splits prod.splits option.splits)
      with idx have "\<exists>i < length chunks. outcome_at request_of answer body chunks i = Inl e"
        by blast
      with r "1.prems"(1) show ?thesis by simp
    next
      case (Inr st1)
      with False "1.prems"(2)
      have run: "run_workers request_of answer body chunks (tl sched) st1 = (r, st')"
        by (auto simp: run_workers.simps[of _ _ _ _ _ st] k_def Let_def)
      from pool_inv_resume[OF "1.prems"(1) k Inr]
      have "pool_inv request_of answer body chunks st1" .
      from "1.IH"[OF False k_def Inr this run] show ?thesis .
    qed
  qed
qed

lemma sort_key_unique:
  assumes "mset xs = mset ys" and "sorted (map f ys)" and "distinct (map f ys)"
  shows "sort_key f xs = ys"
  by (metis assms(1,2,3) distinct_map mset_eq_setD sort_key_inj_key_eq)

lemma mset_map_Inr_eq:
  fixes xs ys :: "'a list"
  assumes "mset (map (Inr :: 'a \<Rightarrow> 'b + 'a) xs) = mset (map Inr ys)"
  shows "mset xs = mset ys"
proof -
  have "inj (image_mset (Inr :: 'a \<Rightarrow> 'b + 'a))"
    by (rule multiset.inj_map) simp
  moreover from assms have "image_mset (Inr :: 'a \<Rightarrow> 'b + 'a) (mset xs) = image_mset Inr (mset ys)"
    by simp
  ultimately show ?thesis by (rule injD)
qed

lemma chunk_at_position:
  assumes "map id_chunk chunks = [0 ..< length chunks]" and "c \<in> set chunks"
  shows "id_chunk c < length chunks \<and> chunks ! id_chunk c = c"
proof -
  from assms(2) obtain i where i: "i < length chunks" "chunks ! i = c"
    by (auto simp: in_set_conv_nth)
  from i(1) have "map id_chunk chunks ! i = id_chunk (chunks ! i)" by simp
  with assms(1) i show ?thesis by simp
qed

text \<open>With the ids that \<^verbatim>\<open>buildChunks\<close> gives, the outcome for the chunk at position
  \<open>i\<close> is the result of the window.\<close>

lemma outcome_at_window_result:
  assumes "map id_chunk chunks = [0 ..< length chunks]" and "i < length chunks"
  shows "outcome_at (chunk_request host params llm sch) (openai params) (process_chunk host sch) chunks i
           = window_result host params llm sch (chunks ! i)"
proof -
  from assms(2) have "map id_chunk chunks ! i = id_chunk (chunks ! i)" by simp
  with assms have "id_chunk (chunks ! i) = i" by simp
  then show ?thesis
    by (simp add: outcome_at_def window_result_def window_response_def)
qed

lemma outcomes_window_results:
  assumes "map id_chunk chunks = [0 ..< length chunks]"
  shows "map (outcome_at (chunk_request host params llm sch) (openai params)
                (process_chunk host sch) chunks) [0 ..< length chunks]
           = map (window_result host params llm sch) chunks"
  by (rule nth_equalityI) (simp_all add: outcome_at_window_result[OF assms])

lemma window_result_chunkId:
  "window_result host params llm sch c = Inr cr \<Longrightarrow> chunkId cr = id_chunk c"
  unfolding window_result_def by (rule process_chunk_chunkId)

lemma results_ids:
  assumes "map id_chunk chunks = [0 ..< length chunks]"
    and "\<forall>c \<in> set chunks. window_result host params llm sch c = Inr (f c)"
  shows "map chunkId (map f chunks) = [0 ..< length chunks]"
proof -
  from assms(2) have "\<forall>c \<in> set chunks. chunkId (f c) = id_chunk c"
    using window_result_chunkId by blast
  then have "map chunkId (map f chunks) = map id_chunk chunks"
    by simp
  with assms(1) show ?thesis by simp
qed

text \<open>What the workers and the sort leave, for any schedule.\<close>

lemma run_extraction_result:
  assumes ids: "map id_chunk chunks = [0 ..< length chunks]"
    and run: "run_extraction host params llm sch conc sched chunks = (r, reqs)"
  shows "(\<exists>m \<le> length chunks. reqs = map (chunk_request host params llm sch) (take m chunks)) \<and>
         (case r of
            Inl e \<Rightarrow> \<exists>c \<in> set chunks. window_result host params llm sch c = Inl e
          | Inr rs \<Rightarrow>
              reqs = map (chunk_request host params llm sch) chunks \<and>
              map Inr rs = map (window_result host params llm sch) chunks)"
proof -
  let ?req = "chunk_request host params llm sch"
  let ?body = "process_chunk host sch"
  let ?out = "outcome_at ?req (openai params) ?body chunks"
  let ?n = "length chunks"
  define st0 where "st0 = spawn ?req chunks (nat (max 1 (min conc (int ?n))))
                     \<lparr> pointer = 0, inflight = [], rawResults = [], requests = [] \<rparr>"
  have inv0: "pool_inv ?req (openai params) ?body chunks st0"
    unfolding st0_def by (rule pool_inv_spawn) simp
  obtain out st where rw: "run_workers ?req (openai params) ?body chunks sched st0 = (out, st)"
    by (cases "run_workers ?req (openai params) ?body chunks sched st0")
  from run_workers_inv[OF inv0 rw]
  have inv: "pool_inv ?req (openai params) ?body chunks st"
    and out: "case out of None \<Rightarrow> inflight st = [] | Some e \<Rightarrow> \<exists>i < ?n. ?out i = Inl e"
    by auto
  from run rw have reqs: "reqs = requests st"
    by (auto simp: run_extraction_def st0_def[symmetric] split: option.splits)
  from inv have rq: "requests st = map (\<lambda>i. ?req (chunks ! i)) [0 ..< min (pointer st) ?n]"
    by (simp add: pool_inv_def)
  have "map (\<lambda>i. ?req (chunks ! i)) [0 ..< min (pointer st) ?n]
          = map ?req (take (min (pointer st) ?n) chunks)"
    by (rule nth_equalityI) simp_all
  with reqs rq have pre: "\<exists>m \<le> ?n. reqs = map ?req (take m chunks)"
    by (metis min.cobounded2)
  show ?thesis
  proof (cases out)
    case (Some e)
    with run rw have r: "r = Inl e"
      by (auto simp: run_extraction_def st0_def[symmetric])
    from Some out obtain i where i: "i < ?n" "?out i = Inl e" by auto
    with outcome_at_window_result[OF ids i(1), of host params llm sch]
    have "window_result host params llm sch (chunks ! i) = Inl e" by simp
    with i(1) have "\<exists>c \<in> set chunks. window_result host params llm sch c = Inl e"
      by (metis nth_mem)
    with r pre show ?thesis by simp
  next
    case None
    with run rw have r: "r = Inr (sort_key chunkId (rawResults st))"
      by (auto simp: run_extraction_def st0_def[symmetric])
    from None out have infl: "inflight st = []" by simp
    with inv have p: "?n \<le> pointer st"
      and ms0: "mset (map Inr (rawResults st)) = mset (map ?out [0 ..< min (pointer st) ?n])"
      by (auto simp: pool_inv_def)
    from p have mn: "min (pointer st) ?n = ?n" by simp
    from ms0 have ms: "mset (map Inr (rawResults st)) = mset (map (window_result host params llm sch) chunks)"
      unfolding mn by (simp only: outcomes_window_results[OF ids])
    have all_in: "\<forall>c \<in> set chunks. \<exists>cr. window_result host params llm sch c = Inr cr"
    proof
      fix c assume "c \<in> set chunks"
      then have "window_result host params llm sch c \<in># mset (map (window_result host params llm sch) chunks)"
        by simp
      with ms have "window_result host params llm sch c \<in># mset (map Inr (rawResults st))"
        by simp
      then show "\<exists>cr. window_result host params llm sch c = Inr cr"
        by auto
    qed
    define f where "f = (\<lambda>c. projr (window_result host params llm sch c))"
    from all_in have ok: "\<forall>c \<in> set chunks. window_result host params llm sch c = Inr (f c)"
      by (auto simp: f_def)
    then have eq: "map (window_result host params llm sch) chunks = map Inr (map f chunks)"
      by simp
    with ms have "mset (map (Inr :: ChunkResult \<Rightarrow> error + ChunkResult) (rawResults st))
                  = mset (map Inr (map f chunks))"
      by simp
    then have m: "mset (rawResults st) = mset (map f chunks)"
      by (rule mset_map_Inr_eq)
    have key: "map chunkId (map f chunks) = [0 ..< ?n]"
      by (rule results_ids[OF ids ok])
    have sorted: "sort_key chunkId (rawResults st) = map f chunks"
      by (rule sort_key_unique[OF m]) (simp_all only: key sorted_upt distinct_upt)
    have "map (\<lambda>i. ?req (chunks ! i)) [0 ..< ?n] = map ?req chunks"
      by (rule nth_equalityI) simp_all
    with reqs rq mn have "reqs = map ?req chunks"
      by simp
    with r sorted eq pre show ?thesis by simp
  qed
qed

section \<open>Properties of the extract call\<close>

lemma run_extraction_success:
  assumes ids: "map id_chunk chunks = [0 ..< length chunks]"
    and ok: "\<forall>c \<in> set chunks. window_result host params llm sch c = Inr (f c)"
  shows "run_extraction host params llm sch conc sched chunks
           = (Inr (map f chunks), map (chunk_request host params llm sch) chunks)"
proof -
  obtain r reqs where run: "run_extraction host params llm sch conc sched chunks = (r, reqs)"
    by (cases "run_extraction host params llm sch conc sched chunks")
  note result = run_extraction_result[OF ids run]
  show ?thesis
  proof (cases r)
    case (Inl e)
    with result obtain c where "c \<in> set chunks" "window_result host params llm sch c = Inl e"
      by auto
    with ok show ?thesis by auto
  next
    case (Inr rs)
    with result have reqs: "reqs = map (chunk_request host params llm sch) chunks"
      and rs: "map Inr rs = map (window_result host params llm sch) chunks"
      by simp_all
    from ok have "map (window_result host params llm sch) chunks = map Inr (map f chunks)"
      by simp
    with rs have "map (Inr :: ChunkResult \<Rightarrow> error + ChunkResult) rs = map Inr (map f chunks)"
      by simp
    then have "rs = map f chunks"
      by (simp only: inj_map_eq_map[OF inj_Inr])
    with run Inr reqs show ?thesis by simp
  qed
qed

lemma extract_call_success:
  assumes sch: "schema opts = Some sch"
    and chunks: "buildChunks doc (chunkTokens_of opts) (overlapTokens_of opts)
                   (tokenizer_of host opts) = Inr chunks"
    and ok: "\<forall>c \<in> set chunks. window_result host params (llmCallOptions_of opts) sch c = Inr (f c)"
  shows "extract_call host params sched doc opts =
           (Inr \<lparr> json = final_json host (openai params (length chunks)
                            (reduction_request host params (llmCallOptions_of opts) sch (map f chunks))),
                  metadata = \<lparr> chunkCount = length chunks,
                               perFieldProvenance = provenance sch (map f chunks),
                               rawChunkResults = map f chunks \<rparr> \<rparr>,
            map (chunk_request host params (llmCallOptions_of opts) sch) chunks
              @ [reduction_request host params (llmCallOptions_of opts) sch (map f chunks)])"
  using sch chunks run_extraction_success[OF buildChunks_ids[OF chunks] ok]
  by (simp add: extract_call_def Let_def)

lemma extract_call_Inr:
  assumes "extract_call host params sched doc opts = (Inr res, reqs)"
  obtains sch chunks f where "schema opts = Some sch"
    and "buildChunks doc (chunkTokens_of opts) (overlapTokens_of opts)
           (tokenizer_of host opts) = Inr chunks"
    and "\<forall>c \<in> set chunks. window_result host params (llmCallOptions_of opts) sch c = Inr (f c)"
proof -
  from assms obtain sch where sch: "schema opts = Some sch"
    by (auto simp: extract_call_def split: option.splits)
  with assms obtain chunks where chunks: "buildChunks doc (chunkTokens_of opts) (overlapTokens_of opts)
           (tokenizer_of host opts) = Inr chunks"
    by (auto simp: extract_call_def split: sum.splits)
  with assms sch obtain rs rq where
    "run_extraction host params (llmCallOptions_of opts) sch (concurrency_of opts) sched chunks = (Inr rs, rq)"
    by (auto simp: extract_call_def Let_def split: sum.splits prod.splits)
  from run_extraction_result[OF buildChunks_ids[OF chunks] this]
  have "map Inr rs = map (window_result host params (llmCallOptions_of opts) sch) chunks"
    by simp
  then have "\<forall>c \<in> set chunks. \<exists>cr. window_result host params (llmCallOptions_of opts) sch c = Inr cr"
    by (metis (no_types, lifting) imageE image_eqI list.set_map)
  then have "\<forall>c \<in> set chunks. window_result host params (llmCallOptions_of opts) sch c
      = Inr ((\<lambda>c. projr (window_result host params (llmCallOptions_of opts) sch c)) c)"
    by auto
  from that[OF sch chunks this] show thesis .
qed


section \<open>Properties of provenance and requests\<close>

lemma map_of_constant:
  "k \<in> set ks \<Longrightarrow> map_of (map (\<lambda>x. (x, v)) ks) k = Some v"
  by (induction ks) auto

lemma all_null_lookup:
  "k \<in> set (map fst (properties sch)) \<Longrightarrow> k \<noteq> ''__proto__'' \<Longrightarrow>
     map_of (all_null sch) k = Some JNull"
  unfolding all_null_def by (rule map_of_constant) simp

lemma map_of_tabulate:
  "map_of (map (\<lambda>k. (k, g k)) ks) k = (if k \<in> set ks then Some (g k) else None)"
  by (induction ks) auto

lemma provenance_lookup:
  assumes "fieldId \<in> set (map fst (properties sch))" and "fieldId \<noteq> ''__proto__''"
  shows "map_of (provenance sch results) fieldId
       = Some (map chunkId (filter (\<lambda>r. non_null (parsed r) fieldId) results))"
proof -
  from assms
  have "fieldId \<in> set (filter (\<lambda>fieldId. fieldId \<noteq> ''__proto__'') (map fst (properties sch)))"
    by simp
  then show ?thesis
    unfolding provenance_def by (simp only: map_of_tabulate if_True)
qed

lemma provenance_keys:
  "map fst (provenance sch results)
     = filter (\<lambda>fieldId. fieldId \<noteq> ''__proto__'') (map fst (properties sch))"
  by (simp add: provenance_def comp_def)

lemma provenance_no_proto: "map_of (provenance sch results) ''__proto__'' = None"
proof -
  have "''__proto__'' \<notin> set (map fst (provenance sch results))"
    by (simp add: provenance_keys)
  then show ?thesis
    by (simp only: map_of_eq_None_iff[symmetric] set_map)
qed

lemma non_null_own: "map_of obj k = Some v \<Longrightarrow> non_null obj k = (v \<noteq> JNull)"
  by (simp add: non_null_def)

lemma sorted_ids_filter:
  assumes "map chunkId results = [0 ..< n]"
  shows "sorted_wrt (<) (map chunkId (filter P results))"
proof -
  from assms have "sorted_wrt (<) (map chunkId results)"
    by (simp add: sorted_wrt_upt)
  then have "sorted_wrt (\<lambda>a b. chunkId a < chunkId b) results"
    by (simp add: sorted_wrt_map)
  then have "sorted_wrt (\<lambda>a b. chunkId a < chunkId b) (filter P results)"
    by (rule sorted_wrt_filter)
  then show ?thesis by (simp add: sorted_wrt_map)
qed

lemma requestBody_openai [simp]:
  "requestBody (params\<lparr> openai := a \<rparr>) callOptions prompt = requestBody params callOptions prompt"
  by (simp add: requestBody_def packageDefaults_def)

lemma chunk_request_openai [simp]:
  "chunk_request host (params\<lparr> openai := a \<rparr>) llm sch c = chunk_request host params llm sch c"
  by (simp add: chunk_request_def)

lemma reduction_request_openai [simp]:
  "reduction_request host (params\<lparr> openai := a \<rparr>) llm sch rs = reduction_request host params llm sch rs"
  by (simp add: reduction_request_def)

lemma window_result_same_response:
  "window_response host params' llm sch c = window_response host params llm sch c \<Longrightarrow>
     window_result host params' llm sch c = window_result host params llm sch c"
  by (simp add: window_result_def)

lemma final_json_failed:
  "reduction_failed host c \<Longrightarrow> final_json host c = []"
  by (auto simp: reduction_failed_def final_json_def is_object_def Let_def
           split: completion.splits option.splits json.splits)





lemma map_of_not_key: "k \<notin> set (map fst n) \<Longrightarrow> map_of n k = None"
  by (simp add: map_of_eq_None_iff)

section \<open>Every field but \<^verbatim>\<open>__proto__\<close>\<close>

text \<open>
  A window whose completion call is rejected, or whose response has no text that parses,
  gets \<^verbatim>\<open>null\<close> for every field of the schema but \<^verbatim>\<open>__proto__\<close>; and whatever the
  order in which the responses arrive, if the windows with a usable response are processed
  without a throw, the extract call completes with one result per window, those of the
  failed windows included.
\<close>

lemma failed_windows_null_fields:
  assumes sch: "schema opts = Some sch"
    and chunks: "buildChunks doc (chunkTokens_of opts) (overlapTokens_of opts)
                   (tokenizer_of host opts) = Inr chunks"
    and others: "\<forall>c \<in> set chunks.
        \<not> failed_or_unparsable host (window_response host params (llmCallOptions_of opts) sch c) \<longrightarrow>
        (\<exists>cr. window_result host params (llmCallOptions_of opts) sch c = Inr cr)"
  shows "\<exists>res reqs.
           extract_call host params sched doc opts = (Inr res, reqs) \<and>
           map Inr (rawChunkResults (metadata res))
             = map (window_result host params (llmCallOptions_of opts) sch) chunks \<and>
           (\<forall>c \<in> set chunks.
              failed_or_unparsable host (window_response host params (llmCallOptions_of opts) sch c) \<longrightarrow>
              chunkId (rawChunkResults (metadata res) ! id_chunk c) = id_chunk c \<and>
              (\<forall>fieldId \<in> set (map fst (properties sch)). fieldId \<noteq> ''__proto__'' \<longrightarrow>
                 map_of (parsed (rawChunkResults (metadata res) ! id_chunk c)) fieldId
                   = Some JNull))"
proof -
  let ?llm = "llmCallOptions_of opts"
  let ?body = "window_result host params ?llm sch"
  let ?failed = "\<lambda>c. failed_or_unparsable host (window_response host params ?llm sch c)"
  define f where "f = (\<lambda>c. projr (?body c))"
  have ok: "\<forall>c \<in> set chunks. ?body c = Inr (f c)"
  proof
    fix c assume c: "c \<in> set chunks"
    show "?body c = Inr (f c)"
    proof (cases "?failed c")
      case True
      from process_chunk_failed[OF this] show ?thesis by (simp add: f_def window_result_def)
    next
      case False
      with others c show ?thesis by (auto simp: f_def)
    qed
  qed
  let ?res = "\<lparr> json = final_json host (openai params (length chunks)
                            (reduction_request host params ?llm sch (map f chunks))),
                  metadata = \<lparr> chunkCount = length chunks,
                               perFieldProvenance = provenance sch (map f chunks),
                               rawChunkResults = map f chunks \<rparr> \<rparr>"
  from extract_call_success[OF sch chunks ok]
  have run: "fst (extract_call host params sched doc opts) = Inr ?res"
    by simp
  have all: "map Inr (rawChunkResults (metadata ?res)) = map ?body chunks"
    using ok by simp
  have nulls: "\<forall>c \<in> set chunks. ?failed c \<longrightarrow>
      chunkId (rawChunkResults (metadata ?res) ! id_chunk c) = id_chunk c \<and>
      (\<forall>fieldId \<in> set (map fst (properties sch)). fieldId \<noteq> ''__proto__'' \<longrightarrow>
         map_of (parsed (rawChunkResults (metadata ?res) ! id_chunk c)) fieldId = Some JNull)"
  proof (intro ballI impI)
    fix c assume c: "c \<in> set chunks" and fl: "?failed c"
    from chunk_at_position[OF buildChunks_ids[OF chunks] c]
    have "rawChunkResults (metadata ?res) ! id_chunk c = f c"
      by simp
    moreover from process_chunk_failed[OF fl, of sch c] ok c
    have "f c = \<lparr> chunkId = id_chunk c, parsed = all_null sch,
               raw = rawRespStr_of (window_response host params ?llm sch c) \<rparr>"
      by (simp add: window_result_def)
    ultimately show "chunkId (rawChunkResults (metadata ?res) ! id_chunk c) = id_chunk c \<and>
      (\<forall>fieldId \<in> set (map fst (properties sch)). fieldId \<noteq> ''__proto__'' \<longrightarrow>
         map_of (parsed (rawChunkResults (metadata ?res) ! id_chunk c)) fieldId = Some JNull)"
      using all_null_lookup by simp
  qed
  from run all nulls show ?thesis
    by (metis prod.collapse)
qed

text \<open>
  For every field name of the schema but \<^verbatim>\<open>__proto__\<close>, the provenance entry is the
  list of the ids of the window results, in the order of \<^verbatim>\<open>rawChunkResults\<close>, whose value
  for the field is not \<^verbatim>\<open>null\<close>; the ids ascend; and a client that answers the window
  calls alike, whatever it answers to the reduction, gives the same metadata.
\<close>

lemma provenance_of_window_results:
  assumes run: "extract_call host params sched doc opts = (Inr res, reqs)"
    and sch: "schema opts = Some sch"
    and chunks: "buildChunks doc (chunkTokens_of opts) (overlapTokens_of opts)
                   (tokenizer_of host opts) = Inr chunks"
    and field: "fieldId \<in> set (map fst (properties sch))"
    and no_proto: "fieldId \<noteq> ''__proto__''"
    and same: "\<forall>c \<in> set chunks.
        window_response host (params\<lparr> openai := other_openai \<rparr>) (llmCallOptions_of opts) sch c
          = window_response host params (llmCallOptions_of opts) sch c"
  shows "map_of (perFieldProvenance (metadata res)) fieldId
           = Some (map chunkId
                    (filter (\<lambda>r. non_null (parsed r) fieldId)
                       (rawChunkResults (metadata res)))) \<and>
         sorted_wrt (<)
           (map chunkId
              (filter (\<lambda>r. non_null (parsed r) fieldId)
                 (rawChunkResults (metadata res)))) \<and>
         (\<exists>res' reqs'.
            extract_call host (params\<lparr> openai := other_openai \<rparr>) sched' doc opts = (Inr res', reqs') \<and>
            metadata res' = metadata res)"
proof -
  let ?llm = "llmCallOptions_of opts"
  from run obtain sch0 chunks0 f where sch0: "schema opts = Some sch0"
    and chunks0: "buildChunks doc (chunkTokens_of opts) (overlapTokens_of opts)
           (tokenizer_of host opts) = Inr chunks0"
    and ok0: "\<forall>c \<in> set chunks0. window_result host params ?llm sch0 c = Inr (f c)"
    by (rule extract_call_Inr)
  from sch sch0 chunks chunks0 ok0
  have ok: "\<forall>c \<in> set chunks. window_result host params ?llm sch c = Inr (f c)"
    by simp
  from extract_call_success[OF sch chunks ok, of sched] run
  have res: "metadata res = \<lparr> chunkCount = length chunks,
                               perFieldProvenance = provenance sch (map f chunks),
                               rawChunkResults = map f chunks \<rparr>"
    by auto
  have p1: "map_of (perFieldProvenance (metadata res)) fieldId
           = Some (map chunkId
                    (filter (\<lambda>r. non_null (parsed r) fieldId)
                       (rawChunkResults (metadata res))))"
    unfolding res using provenance_lookup[OF field no_proto] by simp
  have p2: "sorted_wrt (<)
           (map chunkId
              (filter (\<lambda>r. non_null (parsed r) fieldId)
                 (rawChunkResults (metadata res))))"
    unfolding res using sorted_ids_filter[OF results_ids[OF buildChunks_ids[OF chunks] ok]]
    by simp
  let ?params' = "params\<lparr> openai := other_openai \<rparr>"
  have ok': "\<forall>c \<in> set chunks. window_result host ?params' ?llm sch c = Inr (f c)"
  proof
    fix c assume c: "c \<in> set chunks"
    with same have "window_response host ?params' ?llm sch c = window_response host params ?llm sch c"
      by blast
    from window_result_same_response[OF this] ok c
    show "window_result host ?params' ?llm sch c = Inr (f c)"
      by simp
  qed
  from extract_call_success[OF sch chunks ok', of sched'] res
  have "\<exists>res' reqs'. extract_call host ?params' sched' doc opts = (Inr res', reqs') \<and>
            metadata res' = metadata res"
    by simp
  with p1 p2 show ?thesis by blast
qed

text \<open>
  When an array field of the schema, not named \<^verbatim>\<open>__proto__\<close>, declares an enumeration of
  its own and the response of a window parses to a value that holds an array for it, the
  worker makes a result of the response, and the value of the field in it is \<^verbatim>\<open>null\<close>.
\<close>

lemma enumerated_array_field_null:
  assumes field: "(fieldId, ArraySchemaNode d (Some allowed_values) item) \<in> set (properties sch)"
    and keys: "distinct (map fst (properties sch))"
    and pv: "parse_chunk_response host (rawRespStr_of settled) = pv"
    and own: "hasOwnProperty pv fieldId = Inr True"
    and arr: "get_property pv fieldId = JArr entries"
    and no_proto: "fieldId \<noteq> ''__proto__''"
  shows "\<exists>cr. process_chunk host sch c settled = Inr cr \<and>
              map_of (parsed cr) fieldId = Some JNull"
proof -
  from own have "pv \<noteq> JNull" by (rule hasOwnProperty_Inr_not_null)
  then obtain n where n: "normalize_parsed (properties sch) pv = Inr n"
    using normalize_total by blast
  from normalize_lookup[OF n keys field own no_proto] arr
  have "map_of n fieldId = Some JNull"
    by (simp add: normalize_value_array_enum)
  with n pv show ?thesis
    by (simp add: process_chunk_def Let_def)
qed

section \<open>The small run, evaluated\<close>

lemma example_schema_given: "schema example_opts = Some example_schema"
  by (simp add: example_opts_def)

lemma example_buildChunks:
  "buildChunks example_doc (chunkTokens_of example_opts) (overlapTokens_of example_opts)
     (tokenizer_of example_host example_opts) = Inr example_chunks"
  by code_simp

lemma example_window_result:
  "\<forall>c \<in> set example_chunks.
     window_result example_host example_params (llmCallOptions_of example_opts) example_schema c
       = Inr (example_results ! id_chunk c)"
  by code_simp

lemma example_window_result_bad_reduction:
  "\<forall>c \<in> set example_chunks.
     window_result example_host (example_params\<lparr> openai := example_openai_bad_reduction \<rparr>)
         (llmCallOptions_of example_opts) example_schema c
       = Inr (example_results ! id_chunk c)"
  by code_simp


lemma example_results_map:
  "map (\<lambda>c. example_results ! id_chunk c) example_chunks = example_results"
  by code_simp

text \<open>A response that parses to \<^verbatim>\<open>null\<close> is not a failed window: the worker throws on
  it, and the whole call is rejected with the TypeError.\<close>

lemma example_null_response_rejects:
  "fst (extract_call example_host (example_params\<lparr> openai := example_openai_null \<rparr>)
          [] example_doc example_opts) = Inl TypeError"
  by code_simp

text \<open>The run with the field \<^verbatim>\<open>__proto__\<close>.\<close>

lemma example_extract_call_proto:
  "fst (extract_call example_host example_params_proto [] example_doc example_opts_proto)
     = Inr example_result_proto"
  by code_simp

text \<open>\<^verbatim>\<open>JSON.parse("-0")\<close> is the negative zero, which \<^verbatim>\<open>Object.is\<close> tells from \<^verbatim>\<open>0\<close>.\<close>

lemma example_negative_zero:
  "JSON_parse example_host ''-0'' = Some (JNum NegativeZero) \<and>
   \<not> matchesEnum [ENum (Finite 0)] (JNum NegativeZero) \<and>
   matchesEnum [ENum NegativeZero] (JNum NegativeZero)"
  by code_simp

section \<open>The claims\<close>

text \<open>
  C1. The claim: a window whose completion call fails gets a result with \<^verbatim>\<open>null\<close> for
  every field of the schema, and the failure stops neither the other windows nor the
  call. In the run below the schema has the fields \<^verbatim>\<open>__proto__\<close>, \<^verbatim>\<open>status\<close> and
  \<^verbatim>\<open>tags\<close>, and the call for the third window is rejected. The run completes, with a
  result for every window; the result of the third window has \<^verbatim>\<open>null\<close> for
  \<^verbatim>\<open>status\<close> and \<^verbatim>\<open>tags\<close> and nothing for \<^verbatim>\<open>__proto__\<close>. For the other fields the
  claim holds of every run: \<open>failed_windows_null_fields\<close>.
\<close>

theorem C1_failed_window_proto_field_absent:
  "schema example_opts_proto = Some example_schema_proto \<and>
   map fst (properties example_schema_proto) = [''__proto__'', ''status'', ''tags''] \<and>
   window_response example_host example_params_proto (llmCallOptions_of example_opts_proto)
     example_schema_proto (example_chunks ! 2) = Rejected \<and>
   fst (extract_call example_host example_params_proto [] example_doc example_opts_proto)
     = Inr example_result_proto \<and>
   parsed (rawChunkResults (metadata example_result_proto) ! 2)
     = [(''status'', JNull), (''tags'', JNull)] \<and>
   map_of (parsed (rawChunkResults (metadata example_result_proto) ! 2)) ''__proto__'' = None"
proof (intro conjI)
  show "fst (extract_call example_host example_params_proto [] example_doc example_opts_proto)
     = Inr example_result_proto"
    by (rule example_extract_call_proto)
qed code_simp+

text \<open>
  C2. The claim: for every field name of the schema, the provenance entry is the list of
  the ids of the windows whose result holds a value for the field that is not
  \<^verbatim>\<open>null\<close>. In the same run the response of the second window has the value \<^verbatim>\<open>"x"\<close>
  for the field \<^verbatim>\<open>__proto__\<close>, and the provenance has the entries of \<^verbatim>\<open>status\<close> and
  \<^verbatim>\<open>tags\<close> and no entry for \<^verbatim>\<open>__proto__\<close>. For the other fields the claim holds of
  every run: \<open>provenance_of_window_results\<close>.
\<close>

theorem C2_proto_field_no_provenance:
  "schema example_opts_proto = Some example_schema_proto \<and>
   map fst (properties example_schema_proto) = [''__proto__'', ''status'', ''tags''] \<and>
   get_property
     (parse_chunk_response example_host
        (rawRespStr_of
           (window_response example_host example_params_proto (llmCallOptions_of example_opts_proto)
              example_schema_proto (example_chunks ! 1))))
     ''__proto__'' = JStr ''x'' \<and>
   fst (extract_call example_host example_params_proto [] example_doc example_opts_proto)
     = Inr example_result_proto \<and>
   perFieldProvenance (metadata example_result_proto) = [(''status'', [1]), (''tags'', [])] \<and>
   map_of (perFieldProvenance (metadata example_result_proto)) ''__proto__'' = None"
proof (intro conjI)
  show "fst (extract_call example_host example_params_proto [] example_doc example_opts_proto)
     = Inr example_result_proto"
    by (rule example_extract_call_proto)
qed code_simp+

text \<open>
  C3. When the windows have been processed and the reduction call, the one that follows
  the calls for the windows, is rejected, or its response does not parse, or parses to
  something that is not an object, the extract call returns the empty object as
  \<^verbatim>\<open>json\<close>, with one result per window and a provenance entry for every field of the
  schema but \<^verbatim>\<open>__proto__\<close>.
\<close>

theorem C3_failed_reduction_empty_object:
  assumes sch: "schema opts = Some sch"
    and chunks: "buildChunks doc (chunkTokens_of opts) (overlapTokens_of opts)
                   (tokenizer_of host opts) = Inr chunks"
    and ok: "\<forall>c \<in> set chunks. window_result host params (llmCallOptions_of opts) sch c = Inr (f c)"
    and failed: "reduction_failed host
                   (openai params (length chunks)
                      (reduction_request host params (llmCallOptions_of opts) sch (map f chunks)))"
  shows "fst (extract_call host params sched doc opts)
           = Inr \<lparr> json = [],
                   metadata = \<lparr> chunkCount = length chunks,
                                perFieldProvenance = provenance sch (map f chunks),
                                rawChunkResults = map f chunks \<rparr> \<rparr> \<and>
         map fst (provenance sch (map f chunks))
           = filter (\<lambda>fieldId. fieldId \<noteq> ''__proto__'') (map fst (properties sch))"
  using extract_call_success[OF sch chunks ok, of sched] final_json_failed[OF failed]
  by (simp add: provenance_keys)

theorem C3_failed_reduction_empty_object_witness:
  "schema example_opts = Some example_schema \<and>
   buildChunks example_doc (chunkTokens_of example_opts) (overlapTokens_of example_opts)
     (tokenizer_of example_host example_opts) = Inr example_chunks \<and>
   list_all
     (\<lambda>c. window_result example_host (example_params\<lparr> openai := example_openai_bad_reduction \<rparr>)
            (llmCallOptions_of example_opts) example_schema c
          = Inr (example_results ! id_chunk c))
     example_chunks \<and>
   reduction_failed example_host
     (openai (example_params\<lparr> openai := example_openai_bad_reduction \<rparr>) (length example_chunks)
        (reduction_request example_host (example_params\<lparr> openai := example_openai_bad_reduction \<rparr>)
           (llmCallOptions_of example_opts) example_schema example_results)) \<and>
   fst (extract_call example_host (example_params\<lparr> openai := example_openai_bad_reduction \<rparr>)
          [1, 1, 0] example_doc example_opts)
     = Inr \<lparr> json = [], metadata = example_metadata \<rparr>"
proof -
  have failed: "reduction_failed example_host
     (openai (example_params\<lparr> openai := example_openai_bad_reduction \<rparr>) (length example_chunks)
        (reduction_request example_host (example_params\<lparr> openai := example_openai_bad_reduction \<rparr>)
           (llmCallOptions_of example_opts) example_schema
           (map (\<lambda>c. example_results ! id_chunk c) example_chunks)))"
    by code_simp
  have meta: "\<lparr> chunkCount = length example_chunks,
                 perFieldProvenance = provenance example_schema example_results,
                 rawChunkResults = example_results \<rparr>
              = example_metadata"
    by code_simp
  from C3_failed_reduction_empty_object[OF example_schema_given example_buildChunks
      example_window_result_bad_reduction failed, of "[1, 1, 0]"]
  have "fst (extract_call example_host (example_params\<lparr> openai := example_openai_bad_reduction \<rparr>)
          [1, 1, 0] example_doc example_opts)
     = Inr \<lparr> json = [], metadata = example_metadata \<rparr>"
    by (simp only: example_results_map meta)
  moreover from failed
  have "reduction_failed example_host
     (openai (example_params\<lparr> openai := example_openai_bad_reduction \<rparr>) (length example_chunks)
        (reduction_request example_host (example_params\<lparr> openai := example_openai_bad_reduction \<rparr>)
           (llmCallOptions_of example_opts) example_schema example_results))"
    by (simp only: example_results_map)
  moreover from example_window_result_bad_reduction
  have "list_all
     (\<lambda>c. window_result example_host (example_params\<lparr> openai := example_openai_bad_reduction \<rparr>)
            (llmCallOptions_of example_opts) example_schema c
          = Inr (example_results ! id_chunk c))
     example_chunks"
    by (simp only: list_all_iff)
  ultimately show ?thesis
    using example_schema_given example_buildChunks by (intro conjI)
qed

text \<open>
  C4, as the claim states it, fails. With an item enumeration that is declared and empty
  the array is kept whole, though its item is no member; and an array field that declares
  an enumeration of its own loses the whole array, though its item is a member of the
  item enumeration.
\<close>

theorem C4_empty_item_enumeration_keeps_array:
  "normalize_parsed [(''tags'', ArraySchemaNode None None (StringSchemaNode None (Some [])))]
       (JObj [(''tags'', JArr [JStr ''z''])])
     = Inr [(''tags'', JArr [JStr ''z''])] \<and>
   \<not> matchesEnum [] (JStr ''z'') \<and>
   normalize_parsed
       [(''tags'', ArraySchemaNode None (Some [EStr ''a'']) (StringSchemaNode None (Some [EStr ''a''])))]
       (JObj [(''tags'', JArr [JStr ''a''])])
     = Inr [(''tags'', JNull)] \<and>
   matchesEnum [EStr ''a''] (JStr ''a'')"
  by code_simp

text \<open>
  C4, amended. For a parsed response that is not \<^verbatim>\<open>null\<close> and every field of the
  schema but \<^verbatim>\<open>__proto__\<close>: a key that is absent gives \<^verbatim>\<open>null\<close>; a value that is no
  member of the enumeration the field declares gives \<^verbatim>\<open>null\<close>; for an array field that
  declares no enumeration of its own and whose item type, neither object nor array,
  declares an enumeration that is not empty, a parsed array is kept with the items that
  are no members removed; for an array field that declares no enumeration of its own and
  whose item type declares the empty enumeration, a parsed array is kept as it is; and a
  key that the schema does not declare does not appear.
\<close>

theorem C4_normalization:
  assumes pv: "pv \<noteq> JNull"
    and keys: "distinct (map fst props)"
    and field: "(fieldId, field) \<in> set props"
    and no_proto: "fieldId \<noteq> ''__proto__''"
  shows "\<exists>n. normalize_parsed props pv = Inr n \<and>
           (hasOwnProperty pv fieldId = Inr False \<longrightarrow> map_of n fieldId = Some JNull) \<and>
           (\<forall>allowed_values.
              enum_values field = Some allowed_values \<and>
              \<not> matchesEnum allowed_values (get_property pv fieldId) \<longrightarrow>
              map_of n fieldId = Some JNull) \<and>
           (\<forall>d item itemEnum entries.
              field = ArraySchemaNode d None item \<and> enum_values item = Some itemEnum \<and>
              itemEnum \<noteq> [] \<and> node_type item \<noteq> ''object'' \<and> node_type item \<noteq> ''array'' \<and>
              hasOwnProperty pv fieldId = Inr True \<and> get_property pv fieldId = JArr entries \<longrightarrow>
              map_of n fieldId = Some (JArr (filter (matchesEnum itemEnum) entries))) \<and>
           (\<forall>d item entries.
              field = ArraySchemaNode d None item \<and> enum_values item = Some [] \<and>
              hasOwnProperty pv fieldId = Inr True \<and> get_property pv fieldId = JArr entries \<longrightarrow>
              map_of n fieldId = Some (JArr entries)) \<and>
           (\<forall>k. k \<notin> set (map fst props) \<longrightarrow> map_of n k = None)"
proof -
  from pv obtain n where n: "normalize_parsed props pv = Inr n"
    using normalize_total by blast
  from pv obtain b where b: "hasOwnProperty pv fieldId = Inr b"
    using hasOwnProperty_total by blast
  note look = normalize_lookup[OF n keys field b no_proto]
  have absent: "hasOwnProperty pv fieldId = Inr False \<longrightarrow> map_of n fieldId = Some JNull"
    using look b by auto
  have mismatch: "\<forall>allowed_values.
              enum_values field = Some allowed_values \<and>
              \<not> matchesEnum allowed_values (get_property pv fieldId) \<longrightarrow>
              map_of n fieldId = Some JNull"
    using look by (cases b) (auto simp: normalize_value_enum_mismatch)
  have items: "\<forall>d item itemEnum entries.
              field = ArraySchemaNode d None item \<and> enum_values item = Some itemEnum \<and>
              itemEnum \<noteq> [] \<and> node_type item \<noteq> ''object'' \<and> node_type item \<noteq> ''array'' \<and>
              hasOwnProperty pv fieldId = Inr True \<and> get_property pv fieldId = JArr entries \<longrightarrow>
              map_of n fieldId = Some (JArr (filter (matchesEnum itemEnum) entries))"
    using look b by (auto simp: normalize_value_item_filter)
  have whole: "\<forall>d item entries.
              field = ArraySchemaNode d None item \<and> enum_values item = Some [] \<and>
              hasOwnProperty pv fieldId = Inr True \<and> get_property pv fieldId = JArr entries \<longrightarrow>
              map_of n fieldId = Some (JArr entries)"
    using look b by (auto simp: normalize_value_item_enum_empty)
  have extra: "\<forall>k. k \<notin> set (map fst props) \<longrightarrow> map_of n k = None"
  proof (intro allI impI)
    fix k assume "k \<notin> set (map fst props)"
    with normalize_keys[OF n] have "k \<notin> set (map fst n)"
      by simp
    then show "map_of n k = None"
      by (rule map_of_not_key)
  qed
  from n absent mismatch items whole extra show ?thesis by blast
qed

theorem C4_normalization_witness:
  "JObj [(''status'', JStr ''unknown''), (''tags'', JArr [JStr ''a'', JStr ''z'']), (''extra'', JNum (Finite 1))]
     \<noteq> JNull \<and>
   distinct (map fst (properties example_schema)) \<and>
   (''status'', StringSchemaNode None (Some [EStr ''open'', EStr ''closed'']))
     \<in> set (properties example_schema) \<and>
   (''tags'', ArraySchemaNode None None (StringSchemaNode None (Some [EStr ''a'', EStr ''b''])))
     \<in> set (properties example_schema) \<and>
   ''status'' \<noteq> ''__proto__'' \<and> ''tags'' \<noteq> ''__proto__'' \<and>
   (\<exists>n. normalize_parsed (properties example_schema)
          (JObj [(''status'', JStr ''unknown''), (''tags'', JArr [JStr ''a'', JStr ''z'']),
                 (''extra'', JNum (Finite 1))]) = Inr n \<and>
        map_of n ''status'' = Some JNull \<and>
        map_of n ''tags'' = Some (JArr [JStr ''a'']) \<and>
        map_of n ''extra'' = None) \<and>
   (\<exists>n. normalize_parsed (properties example_schema) (JObj []) = Inr n \<and>
        map_of n ''status'' = Some JNull) \<and>
   (\<exists>n. normalize_parsed [(''tags'', ArraySchemaNode None None (StringSchemaNode None (Some [])))]
          (JObj [(''tags'', JArr [JStr ''z''])]) = Inr n \<and>
        map_of n ''tags'' = Some (JArr [JStr ''z'']))"
proof -
  let ?pv = "JObj [(''status'', JStr ''unknown''), (''tags'', JArr [JStr ''a'', JStr ''z'']),
                   (''extra'', JNum (Finite 1))]"
  let ?status = "StringSchemaNode None (Some [EStr ''open'', EStr ''closed''])"
  let ?item = "StringSchemaNode None (Some [EStr ''a'', EStr ''b''])"
  let ?tags = "ArraySchemaNode None None ?item"
  let ?whole_field = "ArraySchemaNode None None (StringSchemaNode None (Some []))"
  let ?whole_value = "JObj [(''tags'', JArr [JStr ''z''])]"
  have pv: "?pv \<noteq> JNull" and empty: "JObj [] \<noteq> JNull" and pv_whole: "?whole_value \<noteq> JNull"
    by simp_all
  have ns: "''status'' \<noteq> ''__proto__''" and nt: "''tags'' \<noteq> ''__proto__''"
    by simp_all
  have keys: "distinct (map fst (properties example_schema))"
    by code_simp
  have keys_whole: "distinct (map fst [(''tags'', ?whole_field)])"
    by simp
  have status: "(''status'', ?status) \<in> set (properties example_schema)"
    by code_simp
  have tags: "(''tags'', ?tags) \<in> set (properties example_schema)"
    by code_simp
  have tags_whole: "(''tags'', ?whole_field) \<in> set [(''tags'', ?whole_field)]"
    by simp
  have mismatch: "enum_values ?status = Some [EStr ''open'', EStr ''closed''] \<and>
      \<not> matchesEnum [EStr ''open'', EStr ''closed''] (get_property ?pv ''status'')"
    by code_simp
  have items: "?tags = ArraySchemaNode None None ?item \<and>
      enum_values ?item = Some [EStr ''a'', EStr ''b''] \<and> [EStr ''a'', EStr ''b''] \<noteq> [] \<and>
      node_type ?item \<noteq> ''object'' \<and> node_type ?item \<noteq> ''array'' \<and>
      hasOwnProperty ?pv ''tags'' = Inr True \<and>
      get_property ?pv ''tags'' = JArr [JStr ''a'', JStr ''z'']"
    by code_simp
  have whole: "?whole_field = ArraySchemaNode None None (StringSchemaNode None (Some [])) \<and>
      enum_values (StringSchemaNode None (Some [])) = Some [] \<and>
      hasOwnProperty ?whole_value ''tags'' = Inr True \<and>
      get_property ?whole_value ''tags'' = JArr [JStr ''z'']"
    by code_simp
  have filtered: "filter (matchesEnum [EStr ''a'', EStr ''b'']) [JStr ''a'', JStr ''z''] = [JStr ''a'']"
    by code_simp
  have extra: "''extra'' \<notin> set (map fst (properties example_schema))"
    by code_simp
  have absent: "hasOwnProperty (JObj []) ''status'' = Inr False"
    by code_simp
  from C4_normalization[OF pv keys status ns]
  obtain n where n: "normalize_parsed (properties example_schema) ?pv = Inr n"
    and n_enum: "\<forall>allowed_values.
        enum_values ?status = Some allowed_values \<and>
        \<not> matchesEnum allowed_values (get_property ?pv ''status'') \<longrightarrow>
        map_of n ''status'' = Some JNull"
    and n_extra: "\<forall>k. k \<notin> set (map fst (properties example_schema)) \<longrightarrow> map_of n k = None"
    by (elim exE conjE) (rule that)
  from n_enum[rule_format, OF mismatch] have a: "map_of n ''status'' = Some JNull" .
  from n_extra[rule_format, OF extra] have c: "map_of n ''extra'' = None" .
  from C4_normalization[OF pv keys tags nt]
  obtain n' where n': "normalize_parsed (properties example_schema) ?pv = Inr n'"
    and n_items: "\<forall>d item itemEnum entries.
        ?tags = ArraySchemaNode d None item \<and> enum_values item = Some itemEnum \<and>
        itemEnum \<noteq> [] \<and> node_type item \<noteq> ''object'' \<and> node_type item \<noteq> ''array'' \<and>
        hasOwnProperty ?pv ''tags'' = Inr True \<and> get_property ?pv ''tags'' = JArr entries \<longrightarrow>
        map_of n' ''tags'' = Some (JArr (filter (matchesEnum itemEnum) entries))"
    by (elim exE conjE) (rule that)
  from n n' have same: "n' = n"
    by simp
  from n_items[rule_format, OF items]
  have "map_of n' ''tags''
      = Some (JArr (filter (matchesEnum [EStr ''a'', EStr ''b'']) [JStr ''a'', JStr ''z'']))" .
  with filtered same have b: "map_of n ''tags'' = Some (JArr [JStr ''a''])"
    by (simp only:)
  from C4_normalization[OF empty keys status ns]
  obtain m where m: "normalize_parsed (properties example_schema) (JObj []) = Inr m"
    and m_absent: "hasOwnProperty (JObj []) ''status'' = Inr False \<longrightarrow> map_of m ''status'' = Some JNull"
    by (elim exE conjE) (rule that)
  from m_absent absent have "map_of m ''status'' = Some JNull"
    by (rule mp)
  with m have d: "\<exists>n. normalize_parsed (properties example_schema) (JObj []) = Inr n \<and>
        map_of n ''status'' = Some JNull"
    by (intro exI conjI)
  from C4_normalization[OF pv_whole keys_whole tags_whole nt]
  obtain w where w: "normalize_parsed [(''tags'', ?whole_field)] ?whole_value = Inr w"
    and w_whole: "\<forall>d item entries.
        ?whole_field = ArraySchemaNode d None item \<and> enum_values item = Some [] \<and>
        hasOwnProperty ?whole_value ''tags'' = Inr True \<and>
        get_property ?whole_value ''tags'' = JArr entries \<longrightarrow>
        map_of w ''tags'' = Some (JArr entries)"
    by (elim exE conjE) (rule that)
  from w_whole[rule_format, OF whole] have "map_of w ''tags'' = Some (JArr [JStr ''z''])" .
  with w have e: "\<exists>n. normalize_parsed [(''tags'', ?whole_field)] ?whole_value = Inr n \<and>
        map_of n ''tags'' = Some (JArr [JStr ''z''])"
    by (intro exI conjI)
  from n a b c have "\<exists>n. normalize_parsed (properties example_schema) ?pv = Inr n \<and>
        map_of n ''status'' = Some JNull \<and>
        map_of n ''tags'' = Some (JArr [JStr ''a'']) \<and>
        map_of n ''extra'' = None"
    by (intro exI conjI)
  with pv keys status tags ns nt d e show ?thesis by (intro conjI)
qed



text \<open>
  C6. The claim: for every text, window size and overlap, \<^verbatim>\<open>buildChunks\<close> terminates and
  returns a finite sequence of windows with ids \<open>0, 1, 2, \<dots>\<close>, the cursor advancing by
  \<open>max 1 (windowSize - overlapSize)\<close>. The function does terminate, and for a window size
  of at least one token \<open>buildChunks_total\<close>, \<open>buildChunks_ids\<close> and \<open>buildChunks_cursor\<close>
  give the rest. For the one-word document, window
  size \<open>0\<close> and overlap \<open>0\<close>, it does not return a sequence: it throws a TypeError.
\<close>

theorem C6_window_size_zero_throws:
  "buildChunks ''a'' 0 0 words_tokenizer = Inl TypeError"
  by code_simp

text \<open>
  C7, as the claim states it, fails. The document of one blank is not empty, and the
  words tokenizer finds no token in it, so there is no window. And a window can start
  past the end of the document: the tokenizer that spells out \<^verbatim>\<open>&\<close> makes two tokens of
  the document \<^verbatim>\<open>&&\<close>, neither is found in it, and the second window starts at offset
  \<open>3\<close> of a document of length \<open>2\<close>.
\<close>

theorem C7_no_window_or_start_outside:
  "'' '' \<noteq> ([] :: string) \<and> buildChunks '' '' 1500 300 words_tokenizer = Inr [] \<and>
   ampersand_tokenizer ''&&'' = [''and'', ''and''] \<and>
   buildChunks ''&&'' 1 0 ampersand_tokenizer
     = Inr [\<lparr> id_chunk = 0, text_chunk = ''&&'', startChar = 0, endChar = 2, tokens = [''and''] \<rparr>,
            \<lparr> id_chunk = 1, text_chunk = [], startChar = 3, endChar = 2, tokens = [''and''] \<rparr>] \<and>
   length ''&&'' < (3 :: nat)"
  by (intro conjI; code_simp)

text \<open>
  C7, amended. A document without tokens yields no window. A document with at least one
  token, cut with a window size of at least one token, yields at least one window, and
  every window ends within the document; when every token is found in the document, at or
  after the end of the one before it, every window also starts at or before its end, and
  so within the document.
\<close>

theorem C7_windows_within_document:
  "(tokenize doc = [] \<longrightarrow> buildChunks doc ct ovl tokenize = Inr []) \<and>
   (tokenize doc \<noteq> [] \<and> 1 \<le> ct \<longrightarrow>
      (\<exists>cs. buildChunks doc ct ovl tokenize = Inr cs \<and> 1 \<le> length cs \<and>
            (\<forall>c \<in> set cs. endChar c \<le> length doc \<and>
               (tokens_located doc (tokenize doc) 0 \<longrightarrow> startChar c \<le> endChar c))))"
proof (intro conjI impI)
  assume "tokenize doc = []"
  then show "buildChunks doc ct ovl tokenize = Inr []"
    by (simp add: buildChunks_def)
next
  let ?toks = "tokenize doc"
  let ?pos = "tokenCharPositions doc ?toks 0"
  assume a: "?toks \<noteq> [] \<and> 1 \<le> ct"
  then obtain cs where cs: "chunk_loop doc ?toks ?pos ct ovl 0 0 [] = Inr cs"
    using chunk_loop_total by blast
  with a have b: "buildChunks doc ct ovl tokenize = Inr cs"
    by (simp add: buildChunks_def Let_def)
  from a have "0 < length ?toks" by simp
  from chunk_loop_nonempty[OF cs this] have n: "1 \<le> length cs"
    by (simp add: Suc_le_eq)
  from a have ct: "1 \<le> ct" by simp
  from chunk_loop_offsets[OF cs ct]
  have span: "\<forall>c \<in> set cs. \<exists>a b. a \<le> b \<and> b < length ?toks \<and>
            startChar c = fst (?pos ! a) \<and> endChar c = snd (?pos ! b)"
    by simp
  have "\<forall>c \<in> set cs. endChar c \<le> length doc \<and>
          (tokens_located doc ?toks 0 \<longrightarrow> startChar c \<le> endChar c)"
  proof
    fix c assume "c \<in> set cs"
    with span obtain a b where ab: "a \<le> b" "b < length ?toks"
      and se: "startChar c = fst (?pos ! a)" "endChar c = snd (?pos ! b)"
      by blast
    from positions_end_bound[OF ab(2), of doc 0] se(2)
    have e: "endChar c \<le> length doc"
      by simp
    have "tokens_located doc ?toks 0 \<longrightarrow> startChar c \<le> endChar c"
    proof
      assume loc: "tokens_located doc ?toks 0"
      from located_positions_chain[OF loc _ ab] se
      show "startChar c \<le> endChar c"
        by simp
    qed
    with e show "endChar c \<le> length doc \<and>
          (tokens_located doc ?toks 0 \<longrightarrow> startChar c \<le> endChar c)"
      by (rule conjI)
  qed
  with b n show "\<exists>cs. buildChunks doc ct ovl tokenize = Inr cs \<and> 1 \<le> length cs \<and>
            (\<forall>c \<in> set cs. endChar c \<le> length doc \<and>
               (tokens_located doc ?toks 0 \<longrightarrow> startChar c \<le> endChar c))"
    by blast
qed

theorem C7_windows_within_document_witness:
  "(words_tokenizer '' '' = [] \<and> buildChunks '' '' 1 0 words_tokenizer = Inr []) \<and>
   (words_tokenizer ''w0 w1 w2 w3'' \<noteq> [] \<and> (1::int) \<le> 1 \<and>
    tokens_located ''w0 w1 w2 w3'' (words_tokenizer ''w0 w1 w2 w3'') 0 \<and>
    (\<exists>cs. buildChunks ''w0 w1 w2 w3'' 1 0 words_tokenizer = Inr cs \<and> 1 \<le> length cs \<and>
          (\<forall>c \<in> set cs. startChar c \<le> endChar c \<and> endChar c \<le> length ''w0 w1 w2 w3''))) \<and>
   (ampersand_tokenizer ''&&'' \<noteq> [] \<and>
    \<not> tokens_located ''&&'' (ampersand_tokenizer ''&&'') 0 \<and>
    (\<exists>cs. buildChunks ''&&'' 1 0 ampersand_tokenizer = Inr cs \<and> 1 \<le> length cs \<and>
          (\<forall>c \<in> set cs. endChar c \<le> length ''&&'')))"
proof -
  have blank: "words_tokenizer '' '' = []"
    by code_simp
  have words: "words_tokenizer ''w0 w1 w2 w3'' \<noteq> [] \<and> (1::int) \<le> 1 \<and>
      tokens_located ''w0 w1 w2 w3'' (words_tokenizer ''w0 w1 w2 w3'') 0"
    by code_simp
  have amp: "ampersand_tokenizer ''&&'' \<noteq> [] \<and> (1::int) \<le> 1 \<and>
      \<not> tokens_located ''&&'' (ampersand_tokenizer ''&&'') 0"
    by code_simp
  from blank C7_windows_within_document[of words_tokenizer "'' ''" 1 0]
  have a: "words_tokenizer '' '' = [] \<and> buildChunks '' '' 1 0 words_tokenizer = Inr []"
    by blast
  from words C7_windows_within_document[of words_tokenizer "''w0 w1 w2 w3''" 1 0]
  have b: "\<exists>cs. buildChunks ''w0 w1 w2 w3'' 1 0 words_tokenizer = Inr cs \<and> 1 \<le> length cs \<and>
          (\<forall>c \<in> set cs. startChar c \<le> endChar c \<and> endChar c \<le> length ''w0 w1 w2 w3'')"
    by blast
  from amp C7_windows_within_document[of ampersand_tokenizer "''&&''" 1 0]
  have c: "\<exists>cs. buildChunks ''&&'' 1 0 ampersand_tokenizer = Inr cs \<and> 1 \<le> length cs \<and>
          (\<forall>c \<in> set cs. endChar c \<le> length ''&&'')"
    by blast
  from a words b amp c show ?thesis
    by (intro conjI) (simp_all only: simp_thms)
qed




text \<open>
  C9, as the claim states it, fails: called without a schema, \<^verbatim>\<open>extract\<close> does not throw.
  It returns a promise, and the promise is rejected.
\<close>

theorem C9_missing_schema_does_not_throw:
  "fst (extract_async example_host example_params [] example_doc
          (example_opts\<lparr> schema := None \<rparr>)) \<noteq> Throws (Error ''schema is required'') \<and>
   fst (extract_async example_host example_params [] example_doc
          (example_opts\<lparr> schema := None \<rparr>)) = Returns (RejectedWith (Error ''schema is required''))"
  by (intro conjI; code_simp)

text \<open>
  C9, amended. Without a schema the promise that \<^verbatim>\<open>extract\<close> returns is rejected with the
  error "schema is required", and no request has been issued: the check comes before the
  chunking and before any call.
\<close>

theorem C9_missing_schema_fails_first:
  "schema opts = None \<Longrightarrow>
     extract_async host params sched doc opts
       = (Returns (RejectedWith (Error ''schema is required'')), [])"
  by (simp add: extract_async_def extract_call_def)

text \<open>With a window size of \<open>0\<close> the chunking of this document would throw; the check for
  the schema comes first.\<close>

theorem C9_missing_schema_fails_first_witness:
  "schema (example_opts\<lparr> schema := None, chunkTokens := Some 0 \<rparr>) = None \<and>
   buildChunks example_doc 0 0 words_tokenizer = Inl TypeError \<and>
   extract_async example_host example_params [] example_doc
       (example_opts\<lparr> schema := None, chunkTokens := Some 0 \<rparr>)
     = (Returns (RejectedWith (Error ''schema is required'')), [])"
proof -
  have "buildChunks example_doc 0 0 words_tokenizer = Inl TypeError"
    by code_simp
  with C9_missing_schema_fails_first[of "example_opts\<lparr> schema := None, chunkTokens := Some 0 \<rparr>"
      example_host example_params "[]" example_doc]
  show ?thesis by simp
qed

text \<open>
  C10. The claim: when an array field declares an enumeration of its own and the parsed
  response holds an array for it, the normalized value of the field is \<^verbatim>\<open>null\<close>. For
  the array field named \<^verbatim>\<open>__proto__\<close> that declares the enumeration \<^verbatim>\<open>["a"]\<close> and the
  response \<^verbatim>\<open>{"__proto__":["a"]}\<close>, the normalized result is the object without
  properties: it has no value for the field. For a field of another name the claim
  holds: \<open>enumerated_array_field_null\<close>.
\<close>

theorem C10_proto_array_field_absent:
  "properties example_schema_proto_array
     = [(''__proto__'', ArraySchemaNode None (Some [EStr ''a'']) (StringSchemaNode None None))] \<and>
   parse_chunk_response example_host (rawRespStr_of example_response_proto_array)
     = JObj [(''__proto__'', JArr [JStr ''a''])] \<and>
   hasOwnProperty (JObj [(''__proto__'', JArr [JStr ''a''])]) ''__proto__'' = Inr True \<and>
   get_property (JObj [(''__proto__'', JArr [JStr ''a''])]) ''__proto__'' = JArr [JStr ''a''] \<and>
   process_chunk example_host example_schema_proto_array (example_chunks ! 0)
       example_response_proto_array
     = Inr \<lparr> chunkId = 0, parsed = [], raw = rawRespStr_of example_response_proto_array \<rparr> \<and>
   map_of ([] :: jsobject) ''__proto__'' \<noteq> Some JNull"
  by (intro conjI; code_simp)

end
